theory Spec2Isabelle
  imports Main "HOL-Library.Log_Nat" "HOL-Library.Sublist"
begin

section \<open>JavaScript numbers\<close>

text \<open>
  The wrapper \<^verbatim>\<open>src/exchange/wrappers/binance.js\<close> computes with JavaScript numbers, which
  are IEEE 754 binary64 values. A finite number is \<open>Fin m e\<close>, standing for \<open>m * 2 ^ e\<close>,
  kept in the unique form of the format: \<open>\<bar>m\<bar> < 2 ^ 53\<close>, and either
  \<open>2 ^ 52 \<le> \<bar>m\<bar>\<close> with \<open>- 1074 \<le> e \<le> 971\<close> (normal numbers) or \<open>e = - 1074\<close>
  (subnormal numbers and zero). The two zeros of the format are one value here: the
  program never divides by a negative zero, \<open>===\<close> does not tell them apart and both
  print as \<open>0\<close>.
\<close>

datatype jsnum = NaN | PInf | NInf | Fin int int

text \<open>Rounding the quotient \<open>n / d\<close> (with \<open>0 \<le> n\<close>, \<open>0 < d\<close>) to the nearest integer, ties to even.\<close>

definition round_half_even :: "int \<Rightarrow> int \<Rightarrow> int" where
  "round_half_even n d = (let f = n div d; r = n mod d in
       if 2 * r < d then f else if d < 2 * r then f + 1 else if even f then f else f + 1)"

text \<open>The binary exponent of \<open>n / d\<close> for positive \<open>n\<close> and \<open>d\<close>: the \<open>k\<close> with \<open>2 ^ k \<le> n / d < 2 ^ (k + 1)\<close>.\<close>

definition ilog2 :: "int \<Rightarrow> int \<Rightarrow> int" where
  "ilog2 n d = (let k = bitlen n - bitlen d in
       if (if 0 \<le> k then d * 2 ^ nat k \<le> n else d \<le> n * 2 ^ nat (- k)) then k else k - 1)"

text \<open>
  \<open>fl_q n d\<close> is the number nearest to the fraction \<open>n / d\<close> (for \<open>0 < d\<close>), ties to even,
  with gradual underflow and overflow to the infinities: the rounding that every
  arithmetic operation and every numeric literal of the language applies.
\<close>

definition fl_q :: "int \<Rightarrow> int \<Rightarrow> jsnum" where
  "fl_q n d = (if n = 0 then Fin 0 (- 1074) else
     let a = \<bar>n\<bar>; e = max (ilog2 a d) (- 1022) - 52;
         m = round_half_even (a * 2 ^ nat (- e)) (d * 2 ^ nat e);
         m' = (if m = 9007199254740992 then 4503599627370496 else m);
         e' = (if m = 9007199254740992 then e + 1 else e)
     in if 971 < e' then (if 0 < n then PInf else NInf) else Fin (sgn n * m') e')"

text \<open>The exponent and the significand that \<open>fl_q\<close> computes for a positive fraction.\<close>

definition fl_exp :: "int \<Rightarrow> int \<Rightarrow> int" where
  "fl_exp a d = max (ilog2 a d) (- 1022) - 52"

definition fl_man :: "int \<Rightarrow> int \<Rightarrow> int" where
  "fl_man a d = round_half_even (a * 2 ^ nat (- fl_exp a d)) (d * 2 ^ nat (fl_exp a d))"

text \<open>The pairs \<open>m\<close>, \<open>e\<close> that are numbers of the format.\<close>

definition is_double :: "int \<Rightarrow> int \<Rightarrow> bool" where
  "is_double m e = (\<bar>m\<bar> < 9007199254740992 \<and> - 1074 \<le> e \<and> e \<le> 971
                     \<and> (4503599627370496 \<le> \<bar>m\<bar> \<or> e = - 1074))"

text \<open>The number nearest to \<open>n * 2 ^ e\<close>.\<close>

definition fl_de :: "int \<Rightarrow> int \<Rightarrow> jsnum" where
  "fl_de n e = fl_q (n * 2 ^ nat e) (2 ^ nat (- e))"

fun js_mul :: "jsnum \<Rightarrow> jsnum \<Rightarrow> jsnum" where
  "js_mul (Fin a e) (Fin b f) = fl_de (a * b) (e + f)"
| "js_mul NaN _ = NaN"
| "js_mul _ NaN = NaN"
| "js_mul PInf (Fin b f) = (if b = 0 then NaN else if 0 < b then PInf else NInf)"
| "js_mul NInf (Fin b f) = (if b = 0 then NaN else if 0 < b then NInf else PInf)"
| "js_mul (Fin a e) PInf = (if a = 0 then NaN else if 0 < a then PInf else NInf)"
| "js_mul (Fin a e) NInf = (if a = 0 then NaN else if 0 < a then NInf else PInf)"
| "js_mul PInf PInf = PInf"
| "js_mul PInf NInf = NInf"
| "js_mul NInf PInf = NInf"
| "js_mul NInf NInf = PInf"

fun js_div :: "jsnum \<Rightarrow> jsnum \<Rightarrow> jsnum" where
  "js_div (Fin a e) (Fin b f) =
     (if b = 0 then (if a = 0 then NaN else if 0 < a then PInf else NInf)
      else fl_q (sgn b * a * 2 ^ nat (e - f)) (\<bar>b\<bar> * 2 ^ nat (f - e)))"
| "js_div NaN _ = NaN"
| "js_div _ NaN = NaN"
| "js_div (Fin a e) PInf = Fin 0 (- 1074)"
| "js_div (Fin a e) NInf = Fin 0 (- 1074)"
| "js_div PInf (Fin b f) = (if 0 \<le> b then PInf else NInf)"
| "js_div NInf (Fin b f) = (if 0 \<le> b then NInf else PInf)"
| "js_div PInf PInf = NaN"
| "js_div PInf NInf = NaN"
| "js_div NInf PInf = NaN"
| "js_div NInf NInf = NaN"

fun js_add :: "jsnum \<Rightarrow> jsnum \<Rightarrow> jsnum" where
  "js_add (Fin a e) (Fin b f) =
     (let g = min e f in fl_de (a * 2 ^ nat (e - g) + b * 2 ^ nat (f - g)) g)"
| "js_add NaN _ = NaN"
| "js_add _ NaN = NaN"
| "js_add PInf NInf = NaN"
| "js_add NInf PInf = NaN"
| "js_add PInf _ = PInf"
| "js_add NInf _ = NInf"
| "js_add _ PInf = PInf"
| "js_add _ NInf = NInf"

text \<open>\<^verbatim>\<open>Math.round\<close> is \<open>\<lfloor>x + 1/2\<rfloor>\<close>, \<^verbatim>\<open>Math.floor\<close> is \<open>\<lfloor>x\<rfloor>\<close>; both leave the non-finite values alone.\<close>

fun Math_round :: "jsnum \<Rightarrow> jsnum" where
  "Math_round (Fin m e) =
     (if 0 \<le> e then Fin m e else fl_q ((2 * m + 2 ^ nat (- e)) div (2 * 2 ^ nat (- e))) 1)"
| "Math_round x = x"

fun Math_floor :: "jsnum \<Rightarrow> jsnum" where
  "Math_floor (Fin m e) = (if 0 \<le> e then Fin m e else fl_q (m div 2 ^ nat (- e)) 1)"
| "Math_floor x = x"

fun Math_abs :: "jsnum \<Rightarrow> jsnum" where
  "Math_abs (Fin m e) = Fin \<bar>m\<bar> e"
| "Math_abs NInf = PInf"
| "Math_abs x = x"

text \<open>
  \<^verbatim>\<open>Math.pow(10, t)\<close> for a count \<open>t\<close>. Up to \<open>t = 22\<close> the power is a number of the format
  and that number is the result. Beyond, the language leaves the result to the engine as an
  approximation (from \<open>10 ^ 26\<close> on an engine may return a neighbour of the nearest
  number); the nearest number stands for it here, and every property below that rests on
  the value of a power keeps to \<open>t \<le> 22\<close>.
\<close>

definition Math_pow10 :: "nat \<Rightarrow> jsnum" where
  "Math_pow10 t = fl_q (10 ^ t) 1"

text \<open>\<^verbatim>\<open>===\<close> and \<^verbatim>\<open><=\<close> on numbers: \<^verbatim>\<open>NaN\<close> equals nothing and is in no order.\<close>

fun strict_eq_num :: "jsnum \<Rightarrow> jsnum \<Rightarrow> bool" where
  "strict_eq_num NaN _ = False"
| "strict_eq_num _ NaN = False"
| "strict_eq_num x y = (x = y)"

fun js_le :: "jsnum \<Rightarrow> jsnum \<Rightarrow> bool" where
  "js_le NaN _ = False"
| "js_le _ NaN = False"
| "js_le NInf _ = True"
| "js_le _ PInf = True"
| "js_le PInf _ = False"
| "js_le _ NInf = False"
| "js_le (Fin a e) (Fin b f) = (let g = min e f in a * 2 ^ nat (e - g) \<le> b * 2 ^ nat (f - g))"

fun isFinite :: "jsnum \<Rightarrow> bool" where
  "isFinite (Fin m e) = True"
| "isFinite _ = False"

fun truthy_num :: "jsnum \<Rightarrow> bool" where
  "truthy_num NaN = False"
| "truthy_num (Fin m e) = (m \<noteq> 0)"
| "truthy_num _ = True"


fun js_neg :: "jsnum \<Rightarrow> jsnum" where
  "js_neg (Fin m e) = Fin (- m) e"
| "js_neg PInf = NInf"
| "js_neg NInf = PInf"
| "js_neg NaN = NaN"

section \<open>Numbers to strings\<close>

text \<open>
  \<^verbatim>\<open>String(x)\<close> on a number (ECMAScript, Number::toString): with \<open>n\<close>, \<open>k\<close> and \<open>s\<close> such
  that \<open>s\<close> has \<open>k\<close> decimal digits, \<open>s * 10 ^ (n - k)\<close> rounds to \<open>x\<close> and \<open>k\<close> is as small
  as possible, the digits of \<open>s\<close> are laid out plainly when \<open>- 6 < n \<le> 21\<close> and with an
  exponent part otherwise.
\<close>

function int_digits :: "int \<Rightarrow> int \<Rightarrow> int" where
  "int_digits N D = (if 0 < D \<and> D * 10 \<le> N then 1 + int_digits N (D * 10) else 1)"
  by pat_completeness auto
termination
  by (relation "measure (\<lambda>(N, D). nat (N - D))") auto

function lead_zeros :: "int \<Rightarrow> int \<Rightarrow> int" where
  "lead_zeros N D = (if 0 < N \<and> N * 10 < D then 1 + lead_zeros (N * 10) D else 0)"
  by pat_completeness auto
termination
  by (relation "measure (\<lambda>(N, D). nat (D - N))") auto

text \<open>The decimal exponent of \<open>N / D\<close> (both positive): the \<open>n\<close> with \<open>10 ^ (n - 1) \<le> N / D < 10 ^ n\<close>.\<close>

definition dec_exponent :: "int \<Rightarrow> int \<Rightarrow> int" where
  "dec_exponent N D = (if D \<le> N then int_digits N D else - lead_zeros N D)"

text \<open>
  The \<open>k\<close>-digit candidates for the number \<open>Fin m e = N / D\<close> with decimal exponent \<open>n\<close>
  are the two integers around \<open>N / D / 10 ^ (n - k)\<close>; one is accepted when it rounds
  back to the number, the closer one when both do, the even one on a tie.
\<close>

definition digit_candidate :: "int \<Rightarrow> int \<Rightarrow> int \<Rightarrow> int \<Rightarrow> int \<Rightarrow> int \<Rightarrow> int option" where
  "digit_candidate m e N D n k =
     (let A = 10 ^ nat (k - n); B = 10 ^ nat (n - k);
          lo = (N * A) div (D * B); hi = lo + 1;
          ok_lo = (fl_q (lo * B) A = Fin m e);
          ok_hi = (fl_q (hi * B) A = Fin m e)
      in if ok_lo \<and> ok_hi then
           (if 2 * N * A < (lo + hi) * D * B then Some lo
            else if (lo + hi) * D * B < 2 * N * A then Some hi
            else if even lo then Some lo else Some hi)
         else if ok_lo then Some lo else if ok_hi then Some hi else None)"

fun shortest_digits :: "int \<Rightarrow> int \<Rightarrow> int \<Rightarrow> int \<Rightarrow> int \<Rightarrow> nat list \<Rightarrow> (int \<times> int) option" where
  "shortest_digits m e N D n [] = None"
| "shortest_digits m e N D n (k # ks) =
     (case digit_candidate m e N D n (int k) of
        Some s \<Rightarrow> Some (s, int k)
      | None \<Rightarrow> shortest_digits m e N D n ks)"

text \<open>
  The digits \<open>s\<close> and the exponent \<open>n\<close> of a positive number. Seventeen digits always
  identify a binary64 value; the last case only keeps the function total.
\<close>

definition Number_digits :: "int \<Rightarrow> int \<Rightarrow> int \<times> int" where
  "Number_digits m e =
     (let N = m * 2 ^ nat e; D = 2 ^ nat (- e); n = dec_exponent N D in
      case shortest_digits m e N D n [1..<18] of
        Some (s, k) \<Rightarrow> if s = 10 ^ nat k then (10 ^ nat (k - 1), n + 1) else (s, n)
      | None \<Rightarrow> ((N * 10 ^ nat (17 - n)) div (D * 10 ^ nat (n - 17)), n))"

definition digit_char :: "int \<Rightarrow> char" where
  "digit_char d = ''0123456789'' ! nat d"

function dec_string :: "int \<Rightarrow> string" where
  "dec_string n =
     (if n < 10 then [digit_char n] else dec_string (n div 10) @ [digit_char (n mod 10)])"
  by pat_completeness auto
termination
  by (relation "measure nat") auto

declare int_digits.simps [simp del] lead_zeros.simps [simp del] dec_string.simps [simp del]

definition Number_toString_pos :: "int \<Rightarrow> int \<Rightarrow> string" where
  "Number_toString_pos m e =
     (let (s, n) = Number_digits m e; ds = dec_string s; k = int (length ds) in
      if k \<le> n \<and> n \<le> 21 then ds @ replicate (nat (n - k)) CHR ''0''
      else if 0 < n \<and> n \<le> 21 then take (nat n) ds @ ''.'' @ drop (nat n) ds
      else if - 6 < n \<and> n \<le> 0 then ''0.'' @ replicate (nat (- n)) CHR ''0'' @ ds
      else (let x = n - 1; sg = (if 0 \<le> x then ''+'' else ''-''); ex = dec_string \<bar>x\<bar> in
            if k = 1 then ds @ ''e'' @ sg @ ex
            else take 1 ds @ ''.'' @ drop 1 ds @ ''e'' @ sg @ ex))"

fun Number_toString :: "jsnum \<Rightarrow> string" where
  "Number_toString NaN = ''NaN''"
| "Number_toString PInf = ''Infinity''"
| "Number_toString NInf = ''-Infinity''"
| "Number_toString (Fin m e) =
     (if m = 0 then ''0''
      else if m < 0 then ''-'' @ Number_toString_pos (- m) e
      else Number_toString_pos m e)"

section \<open>Strings to numbers\<close>

definition is_digit :: "char \<Rightarrow> bool" where
  "is_digit c = (c \<in> set ''0123456789'')"

definition digit_val :: "char \<Rightarrow> int" where
  "digit_val c = int (of_char c) - 48"

definition parse_digits :: "string \<Rightarrow> int" where
  "parse_digits ds = foldl (\<lambda>a c. 10 * a + digit_val c) 0 ds"

text \<open>
  The white space that \<^verbatim>\<open>Number\<close> and \<^verbatim>\<open>parseFloat\<close> skip. A string here is a list of the
  characters up to \<open>U+00FF\<close>; of these the language counts as white space or line ends
  the tab, the line feed, the vertical tab, the form feed, the carriage return, the space
  and the no-break space \<open>U+00A0\<close>.
\<close>

definition is_space :: "char \<Rightarrow> bool" where
  "is_space c = (c \<in> set [CHR 0x20, CHR 0x09, CHR 0x0A, CHR 0x0B, CHR 0x0C, CHR 0x0D, CHR 0xA0])"

definition trim :: "string \<Rightarrow> string" where
  "trim s = rev (dropWhile is_space (rev (dropWhile is_space s)))"

text \<open>An exponent part at the head of a string: its value and what follows it.\<close>

definition parse_exponent :: "string \<Rightarrow> (int \<times> string) option" where
  "parse_exponent s =
     (case s of
        [] \<Rightarrow> None
      | c # r \<Rightarrow>
          if c = CHR ''e'' \<or> c = CHR ''E'' then
            (let neg = (r \<noteq> [] \<and> hd r = CHR ''-'');
                 r1 = (if r \<noteq> [] \<and> (hd r = CHR ''-'' \<or> hd r = CHR ''+'') then tl r else r);
                 ds = takeWhile is_digit r1
             in if ds = [] then None
                else Some (if neg then - parse_digits ds else parse_digits ds, dropWhile is_digit r1))
          else None)"

text \<open>
  The longest unsigned decimal literal at the head of a string (digits, an optional
  fraction, an optional exponent part, or the word \<^verbatim>\<open>Infinity\<close>): its value and the rest.
\<close>

definition parse_unsigned :: "string \<Rightarrow> (jsnum \<times> string) option" where
  "parse_unsigned s =
     (if take 8 s = ''Infinity'' then Some (PInf, drop 8 s)
      else
        let ip = takeWhile is_digit s; r1 = dropWhile is_digit s;
            has_dot = (r1 \<noteq> [] \<and> hd r1 = CHR ''.'');
            fp = (if has_dot then takeWhile is_digit (tl r1) else []);
            r2 = (if has_dot then dropWhile is_digit (tl r1) else r1)
        in if ip = [] \<and> fp = [] then None
           else
             (let xr = (case parse_exponent r2 of Some (x, r) \<Rightarrow> (x, r) | None \<Rightarrow> (0, r2));
                  ex = fst xr - int (length fp);
                  man = parse_digits (ip @ fp)
              in Some (fl_q (man * 10 ^ nat ex) (10 ^ nat (- ex)), snd xr)))"

definition parse_signed :: "string \<Rightarrow> (jsnum \<times> string) option" where
  "parse_signed s =
     (case s of
        [] \<Rightarrow> None
      | c # r \<Rightarrow>
          if c = CHR ''-'' then map_option (\<lambda>(x, t). (js_neg x, t)) (parse_unsigned r)
          else if c = CHR ''+'' then parse_unsigned r
          else parse_unsigned s)"

text \<open>The literals \<^verbatim>\<open>0x..\<close>, \<^verbatim>\<open>0o..\<close> and \<^verbatim>\<open>0b..\<close> that \<^verbatim>\<open>Number\<close> (not \<^verbatim>\<open>parseFloat\<close>) reads.\<close>

definition base_digit :: "int \<Rightarrow> char \<Rightarrow> int option" where
  "base_digit b c =
     (let v = (if is_digit c then digit_val c
               else if c \<in> set ''abcdef'' then int (of_char c) - 87
               else if c \<in> set ''ABCDEF'' then int (of_char c) - 55
               else b)
      in if v < b then Some v else None)"

fun parse_base :: "int \<Rightarrow> int \<Rightarrow> string \<Rightarrow> int option" where
  "parse_base b acc [] = Some acc"
| "parse_base b acc (c # cs) =
     (case base_digit b c of None \<Rightarrow> None | Some v \<Rightarrow> parse_base b (b * acc + v) cs)"

definition parse_non_decimal :: "string \<Rightarrow> jsnum option" where
  "parse_non_decimal s =
     (let p = take 2 s; ds = drop 2 s;
          b = (if p = ''0x'' \<or> p = ''0X'' then 16
               else if p = ''0o'' \<or> p = ''0O'' then 8
               else if p = ''0b'' \<or> p = ''0B'' then 2 else 0)
      in if b = 0 \<or> ds = [] then None
         else map_option (\<lambda>v. fl_q v 1) (parse_base b 0 ds))"

text \<open>\<^verbatim>\<open>Number(s)\<close>, also what \<^verbatim>\<open>+s\<close> and the arithmetic operators apply to a string.\<close>

definition StringToNumber :: "string \<Rightarrow> jsnum" where
  "StringToNumber s =
     (let t = trim s in
      if t = [] then Fin 0 (- 1074)
      else case parse_non_decimal t of
        Some x \<Rightarrow> x
      | None \<Rightarrow> (case parse_signed t of Some (x, []) \<Rightarrow> x | _ \<Rightarrow> NaN))"

text \<open>\<^verbatim>\<open>parseFloat(s)\<close> reads the longest decimal literal after leading white space.\<close>

definition parseFloat_str :: "string \<Rightarrow> jsnum" where
  "parseFloat_str s =
     (case parse_signed (dropWhile is_space s) of Some (x, r) \<Rightarrow> x | None \<Rightarrow> NaN)"


section \<open>Values, coercions and exceptions\<close>

text \<open>
  The primitive values that the exchange's JSON and the wrapper's own code hand around,
  with the coercions the operators apply to them.
\<close>

datatype jsval = Undefined | Null | Bool bool | Num jsnum | Str string

fun truthy :: "jsval \<Rightarrow> bool" where
  "truthy Undefined = False"
| "truthy Null = False"
| "truthy (Bool b) = b"
| "truthy (Num x) = truthy_num x"
| "truthy (Str s) = (s \<noteq> [])"

fun ToString :: "jsval \<Rightarrow> string" where
  "ToString Undefined = ''undefined''"
| "ToString Null = ''null''"
| "ToString (Bool b) = (if b then ''true'' else ''false'')"
| "ToString (Num x) = Number_toString x"
| "ToString (Str s) = s"

fun ToNumber :: "jsval \<Rightarrow> jsnum" where
  "ToNumber Undefined = NaN"
| "ToNumber Null = Fin 0 (- 1074)"
| "ToNumber (Bool b) = (if b then fl_q 1 1 else Fin 0 (- 1074))"
| "ToNumber (Num x) = x"
| "ToNumber (Str s) = StringToNumber s"

fun strict_eq :: "jsval \<Rightarrow> jsval \<Rightarrow> bool" where
  "strict_eq (Num x) (Num y) = strict_eq_num x y"
| "strict_eq x y = (x = y)"

text \<open>\<^verbatim>\<open>==\<close> on primitive values.\<close>

fun loose_eq :: "jsval \<Rightarrow> jsval \<Rightarrow> bool" where
  "loose_eq (Num x) (Num y) = strict_eq_num x y"
| "loose_eq (Str s) (Str t) = (s = t)"
| "loose_eq (Bool a) (Bool b) = (a = b)"
| "loose_eq Undefined Undefined = True"
| "loose_eq Null Null = True"
| "loose_eq Undefined Null = True"
| "loose_eq Null Undefined = True"
| "loose_eq Undefined _ = False"
| "loose_eq Null _ = False"
| "loose_eq _ Undefined = False"
| "loose_eq _ Null = False"
| "loose_eq x y = strict_eq_num (ToNumber x) (ToNumber y)"

definition parseFloat :: "jsval \<Rightarrow> jsnum" where
  "parseFloat v = parseFloat_str (ToString v)"

text \<open>\<^verbatim>\<open>str.includes(item)\<close>: \<open>item\<close> occurs in \<open>str\<close> as a contiguous run of characters.\<close>

definition str_includes :: "string \<Rightarrow> string \<Rightarrow> bool" where
  "str_includes str item = sublist item str"

datatype js_exn = TypeError | RangeError | Thrown jsval

text \<open>
  An error handed to a callback is a primitive value (the REST client may pass a string)
  or an error object, of which the wrapper reads \<open>message\<close> and writes \<open>notFatal\<close>.
  \<open>AbortError\<close> and \<open>RetryError\<close> are the classes of \<^verbatim>\<open>exchangeErrors\<close>.
\<close>

datatype err_class = Error | AbortError | RetryError

record error_obj =
  cls :: err_class
  message :: jsval
  notFatal :: bool

datatype err = Prim jsval | Obj error_obj

definition new_Error :: "err_class \<Rightarrow> string \<Rightarrow> err" where
  "new_Error c m = Obj \<lparr>cls = c, message = Str m, notFatal = False\<rparr>"

fun err_truthy :: "err \<Rightarrow> bool" where
  "err_truthy (Prim v) = truthy v"
| "err_truthy (Obj e) = True"

text \<open>\<open>error.message\<close>, read only from a truthy error: a truthy primitive has no such property.\<close>

fun err_message :: "err \<Rightarrow> jsval" where
  "err_message (Prim v) = Undefined"
| "err_message (Obj e) = message e"

fun set_notFatal :: "err \<Rightarrow> err" where
  "set_notFatal (Obj e) = Obj (e\<lparr>notFatal := True\<rparr>)"
| "set_notFatal (Prim v) = Prim v"

fun err_notFatal :: "err \<Rightarrow> bool" where
  "err_notFatal (Obj e) = notFatal e"
| "err_notFatal (Prim v) = False"

text \<open>What an operation does with its callback: one error or one result.\<close>

datatype 'r completion = Failed err | Completed 'r

section \<open>The error classifier\<close>

definition recoverableErrors :: "string list" where
  "recoverableErrors =
     [''SOCKETTIMEDOUT'', ''TIMEDOUT'', ''CONNRESET'', ''CONNREFUSED'', ''NOTFOUND'',
      ''Error -1021'', ''Response code 429'', ''Response code 5'', ''ETIMEDOUT'']"

fun includes_any :: "jsval \<Rightarrow> string list \<Rightarrow> bool" where
  "includes_any (Str str) list = list_ex (\<lambda>item. str_includes str item) list"
| "includes_any _ list = False"

text \<open>
  \<^verbatim>\<open>processError\<close>. \<^verbatim>\<open>message.match(recoverableErrors)\<close> turns the array into the pattern of
  its elements joined by commas, which has no special character: it matches when the
  message contains that whole text. On a truthy message that is no string, \<^verbatim>\<open>match\<close> is no
  function.
\<close>

fun join_with :: "string \<Rightarrow> string list \<Rightarrow> string" where
  "join_with sep [] = []"
| "join_with sep [x] = x"
| "join_with sep (x # y # ys) = x @ sep @ join_with sep (y # ys)"

definition processError :: "string \<Rightarrow> err \<Rightarrow> js_exn + err option" where
  "processError funcName error =
     (if \<not> err_truthy error then Inr None
      else
        let m = err_message error in
        if \<not> truthy m then Inr (Some (new_Error AbortError (''[binance.js] '' @ ToString m)))
        else case m of
          Str s \<Rightarrow>
            if \<not> str_includes s (join_with '','' recoverableErrors)
            then Inr (Some (new_Error AbortError (''[binance.js] '' @ s)))
            else Inr (Some (new_Error RetryError (''[binance.js] '' @ s)))
        | _ \<Rightarrow> Inl TypeError)"

text \<open>
  A response body is a primitive value or an object, of which the handler reads \<open>code\<close> and
  \<open>msg\<close> (\<open>Undefined\<close> when absent); the rest of the object is the payload.
\<close>

datatype 'a response_body = BodyPrim jsval | BodyObj jsval jsval 'a

fun body_truthy :: "'a response_body \<Rightarrow> bool" where
  "body_truthy (BodyPrim v) = truthy v"
| "body_truthy (BodyObj c m p) = True"

fun body_code :: "'a response_body \<Rightarrow> jsval" where
  "body_code (BodyPrim v) = Undefined"
| "body_code (BodyObj c m p) = c"

fun body_msg :: "'a response_body \<Rightarrow> jsval" where
  "body_msg (BodyPrim v) = Undefined"
| "body_msg (BodyObj c m p) = m"

text \<open>The two calls of the callback in \<^verbatim>\<open>handleResponse\<close>: \<^verbatim>\<open>callback(error)\<close> and \<^verbatim>\<open>callback(.., body)\<close>.\<close>

datatype 'a invocation = Callback1 err | Callback2 "err option" "'a response_body"

definition handleResponse :: "string \<Rightarrow> err \<Rightarrow> 'a response_body \<Rightarrow> js_exn + 'a invocation" where
  "handleResponse funcName error body =
     (let error1 =
            (if body_truthy body \<and> truthy (body_code body)
             then new_Error Error
                    (''Error '' @ ToString (body_code body) @ '': '' @ ToString (body_msg body))
             else error)
      in if err_truthy error1 then
           (let error2 = (case error1 of Prim (Str s) \<Rightarrow> new_Error Error s | _ \<Rightarrow> error1);
                error3 = (if includes_any (err_message error2) recoverableErrors
                          then set_notFatal error2 else error2)
            in Inr (Callback1 error3))
         else (case processError funcName error1 of
                 Inl x \<Rightarrow> Inl x
               | Inr r \<Rightarrow> Inr (Callback2 r body)))"

text \<open>
  Two parts of \<^verbatim>\<open>handleResponse\<close> by name: the error made from a body with an error code, and
  what the handler does to a truthy error before it calls back (a string becomes an
  error object, a message with a transient signature sets \<open>notFatal\<close>).
\<close>

definition body_error :: "'a response_body \<Rightarrow> err" where
  "body_error body =
     new_Error Error (''Error '' @ ToString (body_code body) @ '': '' @ ToString (body_msg body))"

definition tagged :: "err \<Rightarrow> err" where
  "tagged error =
     (let error2 = (case error of Prim (Str s) \<Rightarrow> new_Error Error s | _ \<Rightarrow> error)
      in if includes_any (err_message error2) recoverableErrors
         then set_notFatal error2 else error2)"

section \<open>Portfolio\<close>

text \<open>
  \<^verbatim>\<open>setBalance\<close>, the completion of \<^verbatim>\<open>getPortfolio\<close>, on what the retry helper hands it.
  Both amounts are declared \<^verbatim>\<open>const\<close>, so the assignment that would put \<open>0\<close> in place of
  \<^verbatim>\<open>NaN\<close> raises a \<^verbatim>\<open>TypeError\<close>; so does reading \<open>free\<close> of an entry that \<^verbatim>\<open>_.find\<close> did not find.
\<close>

record balance =
  asset :: jsval
  free :: jsval

definition setBalance ::
  "string \<Rightarrow> string \<Rightarrow> err \<Rightarrow> balance list \<Rightarrow> js_exn + (string \<times> jsnum) list completion" where
  "setBalance this_asset this_currency err balances =
     (if err_truthy err then Inr (Failed err)
      else case find (\<lambda>item. strict_eq (asset item) (Str this_asset)) balances of
        None \<Rightarrow> Inl TypeError
      | Some a \<Rightarrow>
          let assetAmount = parseFloat (free a) in
          case find (\<lambda>item. strict_eq (asset item) (Str this_currency)) balances of
            None \<Rightarrow> Inl TypeError
          | Some c \<Rightarrow>
              let currencyAmount = parseFloat (free c) in
              if assetAmount = NaN then Inl TypeError
              else if currencyAmount = NaN then Inl TypeError
              else Inr (Completed [(this_asset, assetAmount), (this_currency, currencyAmount)]))"

section \<open>Order status and cancellation\<close>

record order_data =
  status :: jsval
  executedQty :: jsval

record order_state =
  executed :: bool
  is_open :: bool
  filledAmount :: "jsnum option"

definition check :: "err \<Rightarrow> order_data \<Rightarrow> js_exn + order_state completion" where
  "check err data =
     (if err_truthy err then Inr (Failed err)
      else
        let st = status data in
        if strict_eq st (Str ''CANCELED'') \<or> strict_eq st (Str ''REJECTED'')
           \<or> strict_eq st (Str ''EXPIRED'')
        then Inr (Completed \<lparr>executed = False, is_open = False, filledAmount = None\<rparr>)
        else if strict_eq st (Str ''NEW'') \<or> strict_eq st (Str ''PARTIALLY_FILLED'')
        then Inr (Completed \<lparr>executed = False, is_open = True,
                              filledAmount = Some (ToNumber (executedQty data))\<rparr>)
        else if strict_eq st (Str ''FILLED'')
        then Inr (Completed \<lparr>executed = True, is_open = False, filledAmount = None\<rparr>)
        else Inl (Thrown st))"

definition cancel :: "err \<Rightarrow> 'a \<Rightarrow> js_exn + bool completion" where
  "cancel err data =
     (if err_truthy err then
        (case err_message err of
           Str m \<Rightarrow> if str_includes m ''UNKNOWN_ORDER'' then Inr (Completed True)
                    else Inr (Failed err)
         | _ \<Rightarrow> Inl TypeError)
      else Inr (Completed False))"


section \<open>Precision and rounding\<close>

text \<open>
  \<^verbatim>\<open>getPrecision\<close>. The loop has no bound in the source, so it is a partial function: \<open>None\<close>
  is a loop that never ends. The counter \<open>p\<close> is a natural number (a JavaScript number
  counts exactly far beyond any count the loop can return).
\<close>

partial_function (option) getPrecision_loop :: "jsnum \<Rightarrow> jsnum \<Rightarrow> nat \<Rightarrow> nat option" where
  "getPrecision_loop tickSize e p =
     (if \<not> strict_eq_num (js_div (Math_round (js_mul tickSize e)) e) tickSize
      then getPrecision_loop tickSize (js_mul e (fl_q 10 1)) (p + 1)
      else Some p)"

declare getPrecision_loop.simps [code]

definition getPrecision :: "jsnum \<Rightarrow> nat option" where
  "getPrecision tickSize =
     (if \<not> isFinite tickSize then Some 0 else getPrecision_loop tickSize (fl_q 1 1) 0)"

text \<open>
  The value of \<open>e\<close> after \<open>k\<close> turns of the loop, and the test that ends the loop there.
\<close>

definition rt_at :: "jsnum \<Rightarrow> jsnum \<Rightarrow> bool" where
  "rt_at t e = strict_eq_num (js_div (Math_round (js_mul t e)) e) t"

definition times_ten :: "jsnum \<Rightarrow> jsnum" where
  "times_ten e = js_mul e (fl_q 10 1)"

definition tens :: "nat \<Rightarrow> jsnum" where
  "tens k = (times_ten ^^ k) (fl_q 1 1)"

definition round_trips :: "jsnum \<Rightarrow> nat \<Rightarrow> bool" where
  "round_trips tickSize k =
     strict_eq_num (js_div (Math_round (js_mul tickSize (tens k))) (tens k)) tickSize"

text \<open>
  The values of \<open>e\<close> in the loop stay at least one: normal numbers of at least one, or
  infinity once the multiplication by ten overflows.
\<close>

definition big :: "jsnum \<Rightarrow> bool" where
  "big e = (e = PInf \<or>
            (\<exists>m x. e = Fin m x \<and> 4503599627370496 \<le> m \<and> m < 9007199254740992
                    \<and> - 52 \<le> x \<and> x \<le> 971))"

text \<open>
  The test \<^verbatim>\<open>/\d+\.?\d*e[\+\-]*\d+/i.test(s)\<close>: somewhere in \<open>s\<close> there is a run of digits,
  then at most one dot, then digits, then \<open>e\<close> or \<open>E\<close>, then signs, then a digit. Taking
  each run of digits as long as it goes loses no match, since only a dot or the
  exponent letter may follow it.
\<close>

definition sci_match_at :: "string \<Rightarrow> bool" where
  "sci_match_at s =
     (let r1 = dropWhile is_digit s;
          r2 = (case r1 of [] \<Rightarrow> r1 | c # r \<Rightarrow> if c = CHR ''.'' then r else r1);
          r3 = dropWhile is_digit r2
      in takeWhile is_digit s \<noteq> [] \<and>
         (case r3 of
            [] \<Rightarrow> False
          | c # r4 \<Rightarrow>
              (c = CHR ''e'' \<or> c = CHR ''E'') \<and>
              (case dropWhile (\<lambda>x. x = CHR ''+'' \<or> x = CHR ''-'') r4 of
                 [] \<Rightarrow> False
               | d # r5 \<Rightarrow> is_digit d)))"

fun sci_regex_test :: "string \<Rightarrow> bool" where
  "sci_regex_test [] = False"
| "sci_regex_test (c # cs) = (sci_match_at (c # cs) \<or> sci_regex_test cs)"

definition to_lower_char :: "char \<Rightarrow> char" where
  "to_lower_char c =
     (if c \<in> set ''ABCDEFGHIJKLMNOPQRSTUVWXYZ'' then char_of (of_char c + (32 :: nat)) else c)"

definition toLowerCase :: "string \<Rightarrow> string" where
  "toLowerCase s = map to_lower_char s"

text \<open>\<^verbatim>\<open>s.split(c)\<close> for a separator of one character.\<close>

fun split_on :: "char \<Rightarrow> string \<Rightarrow> string list" where
  "split_on c [] = [[]]"
| "split_on c (x # xs) =
     (if x = c then [] # split_on c xs
      else case split_on c xs of [] \<Rightarrow> [[x]] | p # ps \<Rightarrow> (x # p) # ps)"

text \<open>The integer a number stands for, if it is one.\<close>

fun int_of_num :: "jsnum \<Rightarrow> int option" where
  "int_of_num (Fin m e) =
     (if 0 \<le> e then Some (m * 2 ^ nat e)
      else if m mod 2 ^ nat (- e) = 0 then Some (m div 2 ^ nat (- e)) else None)"
| "int_of_num x = None"

text \<open>The integer part \<open>\<lfloor>m * 2 ^ e\<rfloor>\<close> of the number \<open>Fin m e\<close>.\<close>

definition floor_int :: "int \<Rightarrow> int \<Rightarrow> int" where
  "floor_int m e = (if 0 \<le> e then m * 2 ^ nat e else m div 2 ^ nat (- e))"

text \<open>
  \<^verbatim>\<open>new Array(l).join('0')\<close>: \<open>l\<close> has to be an array length (an integer from \<open>0\<close> to
  \<open>2 ^ 32 - 1\<close>), and the empty slots join to \<open>l - 1\<close> zeros.
\<close>

definition new_Array_join_zero :: "jsnum \<Rightarrow> js_exn + string" where
  "new_Array_join_zero l =
     (case int_of_num l of
        None \<Rightarrow> Inl RangeError
      | Some n \<Rightarrow> if 0 \<le> n \<and> n < 4294967296 then Inr (replicate (nat (n - 1)) CHR ''0'')
                  else Inl RangeError)"

text \<open>
  \<^verbatim>\<open>scientificToDecimal\<close> on a number. In the branch for positive exponents \<open>l\<close> is declared
  \<^verbatim>\<open>const\<close>, so the assignment \<^verbatim>\<open>l = l - dec.length\<close> raises a \<^verbatim>\<open>TypeError\<close> whenever the
  coefficient has decimals.
\<close>

definition scientificToDecimal :: "jsnum \<Rightarrow> js_exn + string" where
  "scientificToDecimal num =
     (let str = Number_toString num in
      if sci_regex_test str then
        (let parts = split_on CHR ''e'' (toLowerCase str);
             e = last parts;
             l = Math_abs (StringToNumber e);
             sign = js_div (StringToNumber e) l
         in case butlast parts of
              [] \<Rightarrow> Inl TypeError
            | p0 # ps \<Rightarrow>
                let coeff_array = split_on CHR ''.'' p0 in
                if strict_eq_num sign (fl_q (- 1) 1) then
                  (case new_Array_join_zero l of
                     Inl x \<Rightarrow> Inl x
                   | Inr zs \<Rightarrow> Inr (''0'' @ ''.'' @ zs @ concat coeff_array))
                else if (case coeff_array of c0 # dec # cs \<Rightarrow> dec \<noteq> [] | _ \<Rightarrow> False)
                then Inl TypeError
                else
                  (case new_Array_join_zero (js_add l (fl_q 1 1)) of
                     Inl x \<Rightarrow> Inl x
                   | Inr zs \<Rightarrow> Inr (concat coeff_array @ zs)))
      else Inr str)"

text \<open>
  \<^verbatim>\<open>round\<close>. The count that \<^verbatim>\<open>getPrecision\<close> returns is an integer, so the precision is
  always \<^verbatim>\<open>Math.pow(10, t)\<close>. The amount is a number or, when \<^verbatim>\<open>round\<close> is given its own
  output, a string, which \<^verbatim>\<open>*=\<close> turns into a number.
\<close>

definition scaled_floor :: "jsval \<Rightarrow> nat \<Rightarrow> jsnum" where
  "scaled_floor amount t = Math_floor (js_mul (ToNumber amount) (Math_pow10 t))"

definition round_tick :: "jsval \<Rightarrow> jsnum \<Rightarrow> (js_exn + string) option" where
  "round_tick amount tickSize =
     (case getPrecision tickSize of
        None \<Rightarrow> None
      | Some t \<Rightarrow> Some (scientificToDecimal (js_div (scaled_floor amount t) (Math_pow10 t))))"

section \<open>Fills of an order\<close>

record trade =
  trade_orderId :: jsval
  trade_price :: jsval
  trade_qty :: jsval
  trade_commission :: jsval
  trade_commissionAsset :: string
  trade_time :: jsval

text \<open>
  The object \<open>fees\<close> starts as \<^verbatim>\<open>{}\<close>. Its own properties are the list of its keys, in the
  order they were first written, with their values. Like every object it also has the
  properties of \<^verbatim>\<open>Object.prototype\<close>: under one of these names, \<open>fees[k]\<close> reads a function
  (under \<^verbatim>\<open>__proto__\<close> the prototype itself) as long as \<open>fees\<close> has no property of its own there,
  and assigning a primitive value to \<^verbatim>\<open>__proto__\<close> changes nothing. The functions are listed
  with their names, from which the text of a function is made up (as V8 prints it).
\<close>

type_synonym fees = "(string \<times> jsval) list"

definition Object_prototype_functions :: "(string \<times> string) list" where
  "Object_prototype_functions =
     [(''constructor'', ''Object''),
      (''__defineGetter__'', ''__defineGetter__''),
      (''__defineSetter__'', ''__defineSetter__''),
      (''hasOwnProperty'', ''hasOwnProperty''),
      (''__lookupGetter__'', ''__lookupGetter__''),
      (''__lookupSetter__'', ''__lookupSetter__''),
      (''isPrototypeOf'', ''isPrototypeOf''),
      (''propertyIsEnumerable'', ''propertyIsEnumerable''),
      (''toString'', ''toString''),
      (''valueOf'', ''valueOf''),
      (''toLocaleString'', ''toLocaleString'')]"

definition Object_prototype_has :: "string \<Rightarrow> bool" where
  "Object_prototype_has k = (k = ''__proto__'' \<or> map_of Object_prototype_functions k \<noteq> None)"

text \<open>What \<open>fees[k]\<close> reads: nothing, a value of its own, or what the prototype has.\<close>

datatype property = Absent | Has jsval | Proto_function string | Proto_object

definition fees_get :: "fees \<Rightarrow> string \<Rightarrow> property" where
  "fees_get fs k =
     (case map_of fs k of
        Some v \<Rightarrow> Has v
      | None \<Rightarrow>
          if k = ''__proto__'' then Proto_object
          else case map_of Object_prototype_functions k of
                 Some f \<Rightarrow> Proto_function f
               | None \<Rightarrow> Absent)"

fun fees_put :: "fees \<Rightarrow> string \<Rightarrow> jsval \<Rightarrow> fees" where
  "fees_put [] k v = [(k, v)]"
| "fees_put ((k', v') # fs) k v = (if k' = k then (k, v) # fs else (k', v') # fees_put fs k v)"

text \<open>\<open>fees[k] = v\<close> for a primitive value \<open>v\<close>.\<close>

definition fees_set :: "fees \<Rightarrow> string \<Rightarrow> jsval \<Rightarrow> fees" where
  "fees_set fs k v = (if k = ''__proto__'' then fs else fees_put fs k v)"

text \<open>
  Truthiness of what was read, its number, and the primitive value that \<open>+\<close> makes of it
  (an object gives its text).
\<close>

fun property_truthy :: "property \<Rightarrow> bool" where
  "property_truthy Absent = False"
| "property_truthy (Has v) = truthy v"
| "property_truthy (Proto_function f) = True"
| "property_truthy Proto_object = True"

definition function_text :: "string \<Rightarrow> string" where
  "function_text f = ''function '' @ f @ ''() { [native code] }''"

fun property_primitive :: "property \<Rightarrow> jsval" where
  "property_primitive Absent = Undefined"
| "property_primitive (Has v) = v"
| "property_primitive (Proto_function f) = Str (function_text f)"
| "property_primitive Proto_object = Str ''[object Object]''"

definition property_ToNumber :: "property \<Rightarrow> jsnum" where
  "property_ToNumber x = ToNumber (property_primitive x)"

text \<open>The operator \<open>+\<close> on primitive values: it joins when one side is a string.\<close>

fun is_Str :: "jsval \<Rightarrow> bool" where
  "is_Str (Str s) = True"
| "is_Str _ = False"

definition js_plus :: "jsval \<Rightarrow> jsval \<Rightarrow> jsval" where
  "js_plus a b =
     (if is_Str a \<or> is_Str b then Str (ToString a @ ToString b)
      else Num (js_add (ToNumber a) (ToNumber b)))"

record fill_state =
  price :: jsnum
  amount :: jsnum
  date :: jsval
  fees :: fees

definition fill_step :: "fill_state \<Rightarrow> trade \<Rightarrow> fill_state" where
  "fill_step s trade =
     (let q = ToNumber (trade_qty trade);
          c = ToNumber (trade_commission trade);
          k = trade_commissionAsset trade
      in \<lparr>price = js_div (js_add (js_mul (price s) (amount s))
                                  (js_mul (ToNumber (trade_price trade)) q))
                          (js_add q (amount s)),
          amount = js_add (amount s) q,
          date = trade_time trade,
          fees = (if property_truthy (fees_get (fees s) k)
                  then fees_set (fees s) k
                         (js_plus (property_primitive (fees_get (fees s) k)) (Num c))
                  else fees_set (fees s) k (Num c))\<rparr>)"

definition feePercent_of :: "string \<Rightarrow> string \<Rightarrow> fill_state \<Rightarrow> jsnum" where
  "feePercent_of this_asset this_currency s =
     (if length (fees s) = 1 then
        (if property_truthy (fees_get (fees s) ''BNB'') \<and> this_asset \<noteq> ''BNB''
            \<and> this_currency \<noteq> ''BNB''
         then fl_q 5 100
         else if property_truthy (fees_get (fees s) this_asset)
         then js_mul (js_div (property_ToNumber (fees_get (fees s) this_asset)) (amount s))
                     (fl_q 100 1)
         else if property_truthy (fees_get (fees s) ''currency'')
         then js_mul (js_div (js_div (property_ToNumber (fees_get (fees s) this_currency))
                                     (price s))
                             (amount s)) (fl_q 100 1)
         else fl_q 1 10)
      else fl_q 1 10)"

text \<open>
  \<^verbatim>\<open>get\<close>, the completion of \<^verbatim>\<open>getOrder\<close>: the state after the fills and the fee percentage.
  \<open>date\<close> is the time that is handed to \<^verbatim>\<open>moment\<close>.
\<close>

definition get ::
  "string \<Rightarrow> string \<Rightarrow> jsval \<Rightarrow> err \<Rightarrow> trade list \<Rightarrow> js_exn + (fill_state \<times> jsnum) completion" where
  "get this_asset this_currency order err data =
     (if err_truthy err then Inr (Failed err)
      else
        let trades = filter (\<lambda>t. loose_eq (trade_orderId t) order) data in
        if length trades = 0 then Inr (Failed (new_Error Error ''Trades not found''))
        else
          let s = foldl fill_step
                    \<lparr>price = Fin 0 (- 1074), amount = Fin 0 (- 1074),
                     date = Num (Fin 0 (- 1074)), fees = []\<rparr> trades
          in Inr (Completed (s, feePercent_of this_asset this_currency s)))"

text \<open>
  The aggregation in the words of the specification: the running weighted average
  \<open>price = (price * amount + fillPrice * fillQty) / (amount + fillQty)\<close> followed by
  \<open>amount += fillQty\<close>, over the fills in their order from \<open>price = 0\<close> and \<open>amount = 0\<close>; and
  for each fee currency the sum of the commissions paid in it, in their order.
\<close>

definition spec_avg_step :: "jsnum \<times> jsnum \<Rightarrow> jsnum \<times> jsnum \<Rightarrow> jsnum \<times> jsnum" where
  "spec_avg_step pa fill =
     (js_div (js_add (js_mul (fst pa) (snd pa)) (js_mul (fst fill) (snd fill)))
             (js_add (snd pa) (snd fill)),
      js_add (snd pa) (snd fill))"

definition spec_weighted_average :: "(jsnum \<times> jsnum) list \<Rightarrow> jsnum \<times> jsnum" where
  "spec_weighted_average fills = foldl spec_avg_step (Fin 0 (- 1074), Fin 0 (- 1074)) fills"

definition spec_fee_sum :: "(string \<times> jsnum) list \<Rightarrow> string \<Rightarrow> jsnum option" where
  "spec_fee_sum cs k =
     (case map snd (filter (\<lambda>c. fst c = k) cs) of
        [] \<Rightarrow> None
      | x # xs \<Rightarrow> Some (foldl js_add x xs))"

text \<open>The fills of an order, as \<^verbatim>\<open>get\<close> selects them, and what the aggregation reads of a fill.\<close>

definition fills_of :: "jsval \<Rightarrow> trade list \<Rightarrow> trade list" where
  "fills_of order data = filter (\<lambda>t. loose_eq (trade_orderId t) order) data"

definition fill_price_qty :: "trade \<Rightarrow> jsnum \<times> jsnum" where
  "fill_price_qty t = (ToNumber (trade_price t), ToNumber (trade_qty t))"

definition fill_fee :: "trade \<Rightarrow> string \<times> jsnum" where
  "fill_fee t = (trade_commissionAsset t, ToNumber (trade_commission t))"

text \<open>
  The scenario of the specification: two fills of order \<open>42\<close> at the prices \<open>100\<close> and
  \<open>102\<close>, one unit each, with a commission of \<open>0.1\<close> in the currency \<open>X\<close>, and between them a
  trade of another order.
\<close>

definition scenario_fills :: "trade list" where
  "scenario_fills =
     [\<lparr>trade_orderId = Num (fl_q 42 1), trade_price = Num (fl_q 100 1), trade_qty = Num (fl_q 1 1),
       trade_commission = Num (fl_q 1 10), trade_commissionAsset = ''X'', trade_time = Num (fl_q 1000 1)\<rparr>,
      \<lparr>trade_orderId = Num (fl_q 41 1), trade_price = Num (fl_q 99 1), trade_qty = Num (fl_q 5 1),
       trade_commission = Num (fl_q 5 10), trade_commissionAsset = ''X'', trade_time = Num (fl_q 1500 1)\<rparr>,
      \<lparr>trade_orderId = Num (fl_q 42 1), trade_price = Num (fl_q 102 1), trade_qty = Num (fl_q 1 1),
       trade_commission = Num (fl_q 1 10), trade_commissionAsset = ''X'', trade_time = Num (fl_q 2000 1)\<rparr>]"

text \<open>
  Two more lists of trades: the fills of order \<open>42\<close> with a first commission that is no
  number, and one fill whose fee currency has the name of a property of every object.
\<close>

definition scenario_nan_fills :: "trade list" where
  "scenario_nan_fills =
     [\<lparr>trade_orderId = Num (fl_q 42 1), trade_price = Num (fl_q 100 1), trade_qty = Num (fl_q 1 1),
       trade_commission = Str ''abc'', trade_commissionAsset = ''X'', trade_time = Num (fl_q 1000 1)\<rparr>,
      \<lparr>trade_orderId = Num (fl_q 42 1), trade_price = Num (fl_q 102 1), trade_qty = Num (fl_q 1 1),
       trade_commission = Num (fl_q 1 10), trade_commissionAsset = ''X'', trade_time = Num (fl_q 2000 1)\<rparr>]"

definition scenario_inherited_fills :: "trade list" where
  "scenario_inherited_fills =
     [\<lparr>trade_orderId = Num (fl_q 42 1), trade_price = Num (fl_q 100 1), trade_qty = Num (fl_q 1 1),
       trade_commission = Num (fl_q 1 10), trade_commissionAsset = ''constructor'',
       trade_time = Num (fl_q 1000 1)\<rparr>]"

text \<open>The state before the first fill.\<close>

definition fill_init :: fill_state where
  "fill_init = \<lparr>price = Fin 0 (- 1074), amount = Fin 0 (- 1074),
                date = Num (Fin 0 (- 1074)), fees = []\<rparr>"

definition finite_double :: "jsnum \<Rightarrow> bool" where
  "finite_double x = (case x of Fin m e \<Rightarrow> is_double m e | _ \<Rightarrow> False)"

section \<open>Properties of the rounding of numbers\<close>

lemma powi_nonneg: "0 \<le> k \<Longrightarrow> (2::real) powi k = 2 ^ nat k"
  by (simp add: power_int_nonneg_exp)

lemma powi_neg: "k \<le> 0 \<Longrightarrow> (2::real) powi k = 1 / 2 ^ nat (- k)"
  using power_int_minus_divide [of "2::real" "- k"] by (simp add: power_int_nonneg_exp)

lemma ilog2_test:
  assumes "0 < n" "0 < d"
  shows "(if 0 \<le> k then d * 2 ^ nat k \<le> n else d \<le> n * 2 ^ nat (- k))
           \<longleftrightarrow> 2 powi k \<le> real_of_int n / real_of_int d"
proof (cases "0 \<le> k")
  case True
  have "(d * 2 ^ nat k \<le> n) \<longleftrightarrow> (real_of_int (d * 2 ^ nat k) \<le> real_of_int n)"
    by (simp only: of_int_le_iff)
  also have "\<dots> \<longleftrightarrow> 2 ^ nat k \<le> real_of_int n / real_of_int d"
    using assms by (simp add: pos_le_divide_eq mult.commute)
  finally show ?thesis using True by (simp add: powi_nonneg)
next
  case False
  then have k: "k \<le> 0" by simp
  have "(d \<le> n * 2 ^ nat (- k)) \<longleftrightarrow> (real_of_int d \<le> real_of_int (n * 2 ^ nat (- k)))"
    by (simp only: of_int_le_iff)
  also have "\<dots> \<longleftrightarrow> 1 / 2 ^ nat (- k) \<le> real_of_int n / real_of_int d"
    using assms by (simp add: field_simps)
  finally show ?thesis using False by (simp add: powi_neg [OF k])
qed

lemma bitlen_real_bounds:
  assumes "0 < x"
  shows "2 powi (bitlen x - 1) \<le> real_of_int x" "real_of_int x < 2 powi (bitlen x)"
proof -
  from assms have b1: "1 \<le> bitlen x"
    using bitlen_eq_zero_iff [of x] bitlen_nonneg [of x] by linarith
  from bitlen_bounds [OF assms] have
    "real_of_int (2 ^ nat (bitlen x - 1)) \<le> real_of_int x"
    "real_of_int x < real_of_int (2 ^ nat (bitlen x))"
    by (simp_all only: of_int_le_iff of_int_less_iff)
  then show "2 powi (bitlen x - 1) \<le> real_of_int x" "real_of_int x < 2 powi (bitlen x)"
    using b1 by (simp_all add: powi_nonneg)
qed

lemma ilog2_spec:
  assumes "0 < n" "0 < d"
  shows "2 powi (ilog2 n d) \<le> real_of_int n / real_of_int d
       \<and> real_of_int n / real_of_int d < 2 powi (ilog2 n d + 1)"
proof -
  let ?r = "real_of_int n / real_of_int d"
  let ?k = "bitlen n - bitlen d"
  note bn = bitlen_real_bounds [OF assms(1)]
  note bd = bitlen_real_bounds [OF assms(2)]
  have dpos: "0 < real_of_int d" and npos: "0 < real_of_int n" using assms by simp_all
  have "?r < 2 powi (bitlen n) / 2 powi (bitlen d - 1)"
    using bn(2) bd(1) dpos npos
    by (intro frac_less) simp_all
  also have "\<dots> = 2 powi (?k + 1)"
    by (simp add: power_int_diff [symmetric] algebra_simps)
  finally have up: "?r < 2 powi (?k + 1)" .
  have "2 powi (bitlen n - 1) / 2 powi (bitlen d) \<le> ?r"
    using bn(1) bd(2) dpos npos
    by (intro frac_le) (simp_all add: less_imp_le)
  moreover have "2 powi (bitlen n - 1) / 2 powi (bitlen d) = (2::real) powi (?k - 1)"
    by (simp add: power_int_diff [symmetric] algebra_simps)
  ultimately have lo: "2 powi (?k - 1) \<le> ?r" by simp
  show ?thesis
  proof (cases "2 powi ?k \<le> ?r")
    case True
    then have "ilog2 n d = ?k"
      using ilog2_test [OF assms, of ?k] by (simp add: ilog2_def Let_def)
    then show ?thesis using True up by simp
  next
    case False
    then have "ilog2 n d = ?k - 1"
      using ilog2_test [OF assms, of ?k] by (simp add: ilog2_def Let_def)
    then show ?thesis using False lo by simp
  qed
qed

lemma powi2_less_cancel: "(2::real) powi a < 2 powi b \<Longrightarrow> a < b"
  using power_int_increasing [of b a "2::real"] by (cases "a < b") simp_all

lemma powi2_le_cancel: "(2::real) powi a \<le> 2 powi b \<Longrightarrow> a \<le> b"
  using power_int_strict_increasing [of b a "2::real"] by (cases "a \<le> b") simp_all

lemma powi2_mono: "a \<le> b \<Longrightarrow> (2::real) powi a \<le> 2 powi b"
  by (rule power_int_increasing) simp_all

lemma powi2_strict_mono: "a < b \<Longrightarrow> (2::real) powi a < 2 powi b"
  by (rule power_int_strict_increasing) simp_all

lemma powi2_add: "(2::real) powi (a + b) = 2 powi a * 2 powi b"
  by (simp add: power_int_add)

lemma powi_exp_unique:
  assumes "(2::real) powi k \<le> r" "r < 2 powi (k + 1)" "2 powi j \<le> r" "r < 2 powi (j + 1)"
  shows "k = j"
proof -
  have "(2::real) powi k < 2 powi (j + 1)" using assms by linarith
  then have a: "k < j + 1" by (rule powi2_less_cancel)
  have "(2::real) powi j < 2 powi (k + 1)" using assms by linarith
  then have b: "j < k + 1" by (rule powi2_less_cancel)
  from a b show ?thesis by simp
qed

lemma ilog2_unique:
  assumes "0 < n" "0 < d"
    and "2 powi k \<le> real_of_int n / real_of_int d"
    and "real_of_int n / real_of_int d < 2 powi (k + 1)"
  shows "ilog2 n d = k"
  using ilog2_spec [OF assms(1,2)] assms(3,4) powi_exp_unique by blast


lemma rhe_exact:
  assumes "0 < d"
  shows "round_half_even (c * d) d = c"
  using assms by (simp add: round_half_even_def)

lemma div_ge_of_mult_le:
  assumes "0 < (d::int)" "c * d \<le> n"
  shows "c \<le> n div d"
proof -
  have "c = (c * d) div d" using assms(1) by simp
  also have "\<dots> \<le> n div d" using assms by (intro zdiv_mono1) simp_all
  finally show ?thesis .
qed

lemma div_less_of_less_mult:
  assumes "0 < (d::int)" "n < c * d"
  shows "n div d < c"
proof (rule ccontr)
  assume "\<not> n div d < c"
  then have "c \<le> n div d" by simp
  then have "c * d \<le> (n div d) * d" using assms(1) by (simp add: mult_right_mono)
  also have "\<dots> \<le> n"
    using div_mult_mod_eq [of n d] pos_mod_sign [OF assms(1), of n] by linarith
  finally show False using assms(2) by simp
qed

lemma rhe_ge:
  assumes "0 < d" "c * d \<le> n"
  shows "c \<le> round_half_even n d"
  using div_ge_of_mult_le [OF assms] by (simp add: round_half_even_def Let_def)

lemma rhe_le:
  assumes "0 < d" "n \<le> c * d"
  shows "round_half_even n d \<le> c"
proof (cases "n = c * d")
  case True
  then show ?thesis using rhe_exact [OF assms(1)] by simp
next
  case False
  with assms have "n div d < c" by (intro div_less_of_less_mult) simp_all
  then show ?thesis by (simp add: round_half_even_def Let_def)
qed

lemma scale_quot:
  assumes "0 < d"
  shows "real_of_int (a * 2 ^ nat (- E)) / real_of_int (d * 2 ^ nat E)
           = (real_of_int a / real_of_int d) * 2 powi (- E)"
proof (cases "0 \<le> E")
  case True
  then show ?thesis by (simp add: powi_neg)
next
  case False
  then show ?thesis by (simp add: powi_nonneg)
qed

lemma rhe_ge_real:
  assumes "0 < d" "real_of_int c \<le> real_of_int n / real_of_int d"
  shows "c \<le> round_half_even n d"
proof -
  from assms have "real_of_int c * real_of_int d \<le> real_of_int n"
    by (simp add: pos_le_divide_eq)
  then have "real_of_int (c * d) \<le> real_of_int n" by simp
  then have "c * d \<le> n" by (simp only: of_int_le_iff)
  then show ?thesis using assms(1) by (intro rhe_ge)
qed

lemma rhe_le_real:
  assumes "0 < d" "real_of_int n / real_of_int d \<le> real_of_int c"
  shows "round_half_even n d \<le> c"
proof -
  from assms have "real_of_int n \<le> real_of_int c * real_of_int d"
    by (simp add: pos_divide_le_eq)
  then have "real_of_int n \<le> real_of_int (c * d)" by simp
  then have "n \<le> c * d" by (simp only: of_int_le_iff)
  then show ?thesis using assms(1) by (intro rhe_le)
qed

lemma rhe_eq_real:
  assumes "0 < d" "real_of_int n / real_of_int d = real_of_int c"
  shows "round_half_even n d = c"
  using rhe_ge_real [OF assms(1), of c n] rhe_le_real [OF assms(1), of n c] assms(2) by simp

lemma fl_q_pieces:
  assumes "n \<noteq> 0"
  shows "fl_q n d =
     (if fl_man \<bar>n\<bar> d = 9007199254740992
      then (if 971 < fl_exp \<bar>n\<bar> d + 1 then (if 0 < n then PInf else NInf)
            else Fin (sgn n * 4503599627370496) (fl_exp \<bar>n\<bar> d + 1))
      else (if 971 < fl_exp \<bar>n\<bar> d then (if 0 < n then PInf else NInf)
            else Fin (sgn n * fl_man \<bar>n\<bar> d) (fl_exp \<bar>n\<bar> d)))"
proof -
  have "fl_q n d =
     (let m = fl_man \<bar>n\<bar> d; e = fl_exp \<bar>n\<bar> d;
          m' = (if m = 9007199254740992 then 4503599627370496 else m);
          e' = (if m = 9007199254740992 then e + 1 else e)
      in if 971 < e' then (if 0 < n then PInf else NInf) else Fin (sgn n * m') e')"
    using assms unfolding fl_q_def fl_man_def fl_exp_def Let_def by (simp only: if_False)
  then show ?thesis
    by (cases "fl_man \<bar>n\<bar> d = 9007199254740992") (simp_all only: Let_def if_True if_False simp_thms)
qed

lemma fl_man_quot:
  assumes "0 < d"
  shows "real_of_int (a * 2 ^ nat (- fl_exp a d)) / real_of_int (d * 2 ^ nat (fl_exp a d))
           = (real_of_int a / real_of_int d) * 2 powi (- fl_exp a d)"
  by (rule scale_quot [OF assms])

lemma fl_den_pos: "0 < d \<Longrightarrow> 0 < d * 2 ^ nat E" for d :: int
  by simp

lemma fl_exp_ge: "- 1074 \<le> fl_exp a d"
  by (simp add: fl_exp_def)

lemma fl_man_le:
  assumes "0 < a" "0 < d"
  shows "fl_man a d \<le> 9007199254740992"
proof -
  let ?r = "real_of_int a / real_of_int d"
  let ?E = "fl_exp a d"
  from ilog2_spec [OF assms] have up: "?r < 2 powi (ilog2 a d + 1)" by simp
  have "ilog2 a d + 1 \<le> ?E + 53" by (simp add: fl_exp_def)
  then have "(2::real) powi (ilog2 a d + 1) \<le> 2 powi (?E + 53)" by (rule powi2_mono)
  with up have "?r < 2 powi (?E + 53)" by linarith
  then have "?r * 2 powi (- ?E) < 2 powi (?E + 53) * 2 powi (- ?E)"
    by (rule mult_strict_right_mono) simp
  also have "\<dots> = 2 powi 53" by (simp add: power_int_add [symmetric])
  finally have "?r * 2 powi (- ?E) \<le> real_of_int 9007199254740992" by simp
  then show ?thesis
    unfolding fl_man_def
    by (intro rhe_le_real fl_den_pos assms) (simp only: scale_quot [OF assms(2)])
qed

lemma fl_man_ge_normal:
  assumes "0 < a" "0 < d" "- 1022 \<le> ilog2 a d"
  shows "4503599627370496 \<le> fl_man a d"
proof -
  let ?r = "real_of_int a / real_of_int d"
  let ?E = "fl_exp a d"
  from assms(3) have E: "?E = ilog2 a d - 52" by (simp add: fl_exp_def)
  from ilog2_spec [OF assms(1,2)] have "2 powi (?E + 52) \<le> ?r" by (simp add: E)
  then have "2 powi (?E + 52) * 2 powi (- ?E) \<le> ?r * 2 powi (- ?E)"
    by (rule mult_right_mono) simp
  moreover have "2 powi (?E + 52) * 2 powi (- ?E) = (2::real) powi 52"
    by (simp add: power_int_add [symmetric])
  ultimately have "real_of_int 4503599627370496 \<le> ?r * 2 powi (- ?E)" by simp
  then show ?thesis
    unfolding fl_man_def
    by (intro rhe_ge_real fl_den_pos assms) (simp only: scale_quot [OF assms(2)])
qed

lemma fl_man_nonneg:
  assumes "0 < a" "0 < d"
  shows "0 \<le> fl_man a d"
  unfolding fl_man_def using assms by (intro rhe_ge fl_den_pos) simp_all

lemma fl_exp_subnormal: "\<not> - 1022 \<le> ilog2 a d \<Longrightarrow> fl_exp a d = - 1074"
  by (simp add: fl_exp_def)

text \<open>Every result of the rounding is an infinity or a number in the form of the format.\<close>

lemma fl_q_is_double:
  assumes "0 < d" "fl_q n d = Fin m e"
  shows "is_double m e"
proof (cases "n = 0")
  case True
  with assms show ?thesis by (simp add: fl_q_def is_double_def)
next
  case False
  then have a: "0 < \<bar>n\<bar>" by simp
  note le = fl_man_le [OF a assms(1)]
  note nn = fl_man_nonneg [OF a assms(1)]
  note ge = fl_exp_ge [of "\<bar>n\<bar>" d]
  have sg: "\<bar>sgn n * x\<bar> = \<bar>x\<bar>" for x :: int using False by (simp add: abs_mult)
  have norm: "4503599627370496 \<le> fl_man \<bar>n\<bar> d \<or> fl_exp \<bar>n\<bar> d = - 1074"
    using fl_man_ge_normal [OF a assms(1)] fl_exp_subnormal [of "\<bar>n\<bar>" d] by blast
  from assms(2) show ?thesis
    unfolding fl_q_pieces [OF False]
    using le nn ge norm
    by (auto simp add: is_double_def sg split: if_splits)
qed


text \<open>A fraction that is a number of the format is left alone by the rounding.\<close>

lemma fl_q_exact:
  assumes "is_double m e" "0 < d"
    and eq: "real_of_int n / real_of_int d = real_of_int m * 2 powi e"
  shows "fl_q n d = Fin m e"
proof (cases "m = 0")
  case True
  with eq assms(2) have "n = 0" by simp
  moreover from True assms(1) have "e = - 1074" by (simp add: is_double_def)
  ultimately show ?thesis using True by (simp add: fl_q_def)
next
  case False
  have dpos: "0 < real_of_int d" using assms(2) by simp
  have p: "0 < (2::real) powi e" by simp
  from eq dpos have n_eq: "real_of_int n = real_of_int m * 2 powi e * real_of_int d"
    by (simp add: field_simps)
  have n0: "n \<noteq> 0"
  proof
    assume "n = 0"
    with n_eq dpos p False show False by simp
  qed
  have sg: "sgn n = sgn m"
  proof -
    have "sgn (real_of_int n) = sgn (real_of_int m)"
      unfolding n_eq using dpos p by (simp add: sgn_mult)
    then show ?thesis by (simp add: sgn_if split: if_splits)
  qed
  let ?a = "\<bar>n\<bar>"
  have a: "0 < ?a" using n0 by simp
  have q: "real_of_int ?a / real_of_int d = real_of_int \<bar>m\<bar> * 2 powi e"
  proof -
    have "real_of_int ?a / real_of_int d = \<bar>real_of_int n / real_of_int d\<bar>"
      using dpos by (simp add: abs_divide)
    also have "\<dots> = \<bar>real_of_int m\<bar> * 2 powi e" by (simp add: eq abs_mult)
    finally show ?thesis by simp
  qed
  have E: "fl_exp ?a d = e"
  proof (cases "4503599627370496 \<le> \<bar>m\<bar>")
    case True
    from assms(1) have lt: "\<bar>m\<bar> < 9007199254740992" and eb: "- 1074 \<le> e"
      by (simp_all add: is_double_def)
    have "(2::real) powi 52 \<le> real_of_int \<bar>m\<bar>" using True by simp
    then have "2 powi 52 * 2 powi e \<le> real_of_int \<bar>m\<bar> * 2 powi e"
      by (rule mult_right_mono) simp
    then have lo: "2 powi (52 + e) \<le> real_of_int ?a / real_of_int d"
      by (simp only: q powi2_add)
    have "real_of_int \<bar>m\<bar> < 2 powi 53" using lt by simp
    then have "real_of_int \<bar>m\<bar> * 2 powi e < 2 powi 53 * 2 powi e"
      by (rule mult_strict_right_mono) simp
    moreover have "(2::real) powi (52 + e + 1) = 2 powi 53 * 2 powi e"
      using powi2_add [of 53 e] by (simp add: add.commute)
    ultimately have up: "real_of_int ?a / real_of_int d < 2 powi (52 + e + 1)"
      by (simp only: q)
    from ilog2_unique [OF a assms(2) lo up] eb show ?thesis by (simp add: fl_exp_def)
  next
    case False
    with assms(1) have e: "e = - 1074" by (simp add: is_double_def)
    from False have "real_of_int \<bar>m\<bar> < 2 powi 52" by simp
    then have "real_of_int \<bar>m\<bar> * 2 powi e < 2 powi 52 * 2 powi e"
      by (rule mult_strict_right_mono) simp
    moreover have "(2::real) powi 52 * 2 powi e = 2 powi (- 1022)"
      using powi2_add [of 52 e] by (simp add: e)
    ultimately have "real_of_int ?a / real_of_int d < 2 powi (- 1022)"
      by (simp only: q)
    with ilog2_spec [OF a assms(2)] have "(2::real) powi (ilog2 ?a d) < 2 powi (- 1022)"
      by linarith
    then have "ilog2 ?a d < - 1022" by (rule powi2_less_cancel)
    then show ?thesis by (simp add: fl_exp_def e)
  qed
  have M: "fl_man ?a d = \<bar>m\<bar>"
    unfolding fl_man_def
  proof (rule rhe_eq_real)
    show "0 < d * 2 ^ nat (fl_exp ?a d)" using assms(2) by simp
    have "real_of_int (?a * 2 ^ nat (- fl_exp ?a d)) / real_of_int (d * 2 ^ nat (fl_exp ?a d))
            = real_of_int \<bar>m\<bar> * 2 powi e * 2 powi (- e)"
      by (simp only: scale_quot [OF assms(2)] q E)
    also have "\<dots> = real_of_int \<bar>m\<bar>"
      by (simp add: power_int_minus)
    finally show "real_of_int (?a * 2 ^ nat (- fl_exp ?a d)) / real_of_int (d * 2 ^ nat (fl_exp ?a d))
            = real_of_int \<bar>m\<bar>" .
  qed
  from assms(1) have lt: "\<bar>m\<bar> \<noteq> 9007199254740992" and eb: "\<not> 971 < e"
    by (simp_all add: is_double_def)
  have "sgn n * \<bar>m\<bar> = m" by (simp add: sg mult_sgn_abs)
  then show ?thesis
    unfolding fl_q_pieces [OF n0] M E using lt eb by simp
qed

text \<open>A fraction of at least one rounds to a normal number of at least one, or overflows.\<close>

lemma fl_q_ge1:
  assumes "0 < d" "d \<le> n"
  shows "fl_q n d = PInf \<or>
         (\<exists>m e. fl_q n d = Fin m e \<and> 4503599627370496 \<le> m \<and> m < 9007199254740992
                 \<and> - 52 \<le> e \<and> e \<le> 971)"
proof -
  from assms have n: "0 < n" by simp
  then have n0: "n \<noteq> 0" and an: "\<bar>n\<bar> = n" by simp_all
  have "1 \<le> real_of_int n / real_of_int d" using assms by (simp add: pos_le_divide_eq)
  with ilog2_spec [OF n assms(1)] have "(2::real) powi 0 < 2 powi (ilog2 n d + 1)" by simp
  then have k: "0 \<le> ilog2 n d" using powi2_less_cancel [of 0 "ilog2 n d + 1"] by simp
  then have E: "- 52 \<le> fl_exp n d" by (simp add: fl_exp_def)
  from k have "- 1022 \<le> ilog2 n d" by simp
  note ge = fl_man_ge_normal [OF n assms(1) this]
  note le = fl_man_le [OF n assms(1)]
  show ?thesis
    unfolding fl_q_pieces [OF n0] an using n E ge le by auto
qed

lemma Math_round_zero:
  assumes "e < 0" "0 \<le> m" "2 * m < 2 ^ nat (- e)"
  shows "Math_round (Fin m e) = Fin 0 (- 1074)"
proof -
  have "(2 * m + 2 ^ nat (- e)) div (2 * 2 ^ nat (- e)) = 0"
    using assms by (intro div_pos_pos_trivial) simp_all
  then show ?thesis using assms(1) by (simp add: fl_q_def)
qed

text \<open>A positive fraction of at most a quarter rounds to a number that \<^verbatim>\<open>Math.round\<close> takes to zero.\<close>

lemma fl_q_small:
  assumes "0 < n" "0 < d" "4 * n \<le> d"
  shows "Math_round (fl_q n d) = Fin 0 (- 1074)"
proof -
  let ?r = "real_of_int n / real_of_int d"
  let ?E = "fl_exp n d"
  from assms have n0: "n \<noteq> 0" and an: "\<bar>n\<bar> = n" by simp_all
  have r: "?r \<le> 2 powi (- 2)"
  proof -
    have "real_of_int (4 * n) \<le> real_of_int d" using assms(3) by (simp only: of_int_le_iff)
    then have "?r \<le> 1 / 4" using assms(2) by (simp add: pos_divide_le_eq)
    then show ?thesis by (simp add: power_int_minus)
  qed
  with ilog2_spec [OF assms(1,2)] have "(2::real) powi (ilog2 n d) \<le> 2 powi (- 2)" by linarith
  then have k: "ilog2 n d \<le> - 2" by (rule powi2_le_cancel)
  then have E: "?E \<le> - 54" by (simp add: fl_exp_def)
  define P :: int where "P = 2 ^ nat (- ?E - 2)"
  have P1: "2 ^ nat (- ?E) = 4 * P"
  proof -
    have "nat (- ?E) = nat (- ?E - 2) + 2" using E by simp
    then show ?thesis by (simp add: P_def power_add)
  qed
  have P2: "2 ^ nat (- (?E + 1)) = 2 * P"
  proof -
    have "nat (- (?E + 1)) = nat (- ?E - 2) + 1" using E by simp
    then show ?thesis by (simp add: P_def power_add)
  qed
  have Ppos: "0 < P" by (simp add: P_def)
  have Pr: "real_of_int P = 2 powi (- ?E - 2)"
    using E by (simp add: P_def powi_nonneg)
  have M: "fl_man n d \<le> P"
    unfolding fl_man_def
  proof (rule rhe_le_real)
    show "0 < d * 2 ^ nat ?E" using assms(2) by simp
    have "?r * 2 powi (- ?E) \<le> 2 powi (- 2) * 2 powi (- ?E)"
      using r by (rule mult_right_mono) simp
    also have "\<dots> = 2 powi (- ?E - 2)"
    proof -
      have "- ?E - 2 = - 2 + - ?E" by simp
      then show ?thesis by (simp only: powi2_add)
    qed
    finally show "real_of_int (n * 2 ^ nat (- ?E)) / real_of_int (d * 2 ^ nat ?E) \<le> real_of_int P"
      by (simp only: scale_quot [OF assms(2)] Pr)
  qed
  note nn = fl_man_nonneg [OF assms(1,2)]
  show ?thesis
  proof (cases "fl_man n d = 9007199254740992")
    case True
    then have f: "fl_q n d = Fin 4503599627370496 (?E + 1)"
      unfolding fl_q_pieces [OF n0] an using E assms(1) by simp
    have e1: "?E + 1 < 0" using E by simp
    have "2 * 4503599627370496 < (2::int) ^ nat (- (?E + 1))"
      unfolding P2 using True M by simp
    from Math_round_zero [OF e1 _ this] show ?thesis unfolding f by simp
  next
    case False
    then have f: "fl_q n d = Fin (fl_man n d) ?E"
      unfolding fl_q_pieces [OF n0] an using E assms(1) by simp
    have e1: "?E < 0" using E by simp
    have "2 * fl_man n d < (2::int) ^ nat (- ?E)"
      unfolding P1 using M Ppos by simp
    from Math_round_zero [OF e1 nn this] show ?thesis unfolding f .
  qed
qed


section \<open>Properties of the error classifier\<close>

lemma includes_any_iff:
  "includes_any (Str m) l \<longleftrightarrow> (\<exists>item \<in> set l. \<exists>p q. m = p @ item @ q)"
  by (simp add: list_ex_iff str_includes_def sublist_def)

lemma includes_any_Str:
  "includes_any v l \<Longrightarrow> \<exists>m. v = Str m"
  by (cases v) simp_all

lemma processError_falsy: "\<not> err_truthy e \<Longrightarrow> processError f e = Inr None"
  by (simp add: processError_def)

lemma handleResponse_body_error:
  "body_truthy body \<Longrightarrow> truthy (body_code body) \<Longrightarrow>
   handleResponse f error body = Inr (Callback1 (tagged (body_error body)))"
  by (simp add: handleResponse_def tagged_def body_error_def Let_def new_Error_def)

lemma handleResponse_no_body_error:
  assumes "\<not> (body_truthy body \<and> truthy (body_code body))"
  shows "handleResponse f error body =
     (if err_truthy error then Inr (Callback1 (tagged error)) else Inr (Callback2 None body))"
proof -
  from assms have c: "(body_truthy body \<and> truthy (body_code body)) = False" by simp
  show ?thesis
    unfolding handleResponse_def c
    by (simp add: tagged_def Let_def processError_falsy)
qed

lemma tagged_notFatal_if:
  "includes_any (err_message (tagged e)) recoverableErrors \<Longrightarrow> err_notFatal (tagged e)"
  apply (cases e)
  subgoal for v by (cases v) (auto simp add: tagged_def Let_def new_Error_def split: if_splits)
  subgoal for x by (auto simp add: tagged_def Let_def split: if_splits)
  done

lemma tagged_notFatal_only_if:
  "\<not> includes_any (err_message (tagged e)) recoverableErrors \<Longrightarrow> \<not> err_notFatal e \<Longrightarrow>
   \<not> err_notFatal (tagged e)"
  apply (cases e)
  subgoal for v by (cases v) (auto simp add: tagged_def Let_def new_Error_def split: if_splits)
  subgoal for x by (auto simp add: tagged_def Let_def split: if_splits)
  done

lemma tagged_notFatal_iff:
  "err_notFatal (tagged e) \<longleftrightarrow>
     includes_any (err_message (tagged e)) recoverableErrors \<or> err_notFatal e"
  apply (cases e)
  subgoal for v by (cases v) (auto simp add: tagged_def Let_def new_Error_def split: if_splits)
  subgoal for x by (auto simp add: tagged_def Let_def split: if_splits)
  done

lemma body_error_untagged: "\<not> err_notFatal (body_error body)"
  by (simp add: body_error_def new_Error_def)

lemma handleResponse_Callback1:
  assumes "handleResponse f error body = Inr (Callback1 e)"
  shows "(body_truthy body \<and> truthy (body_code body) \<and> e = tagged (body_error body))
       \<or> (\<not> (body_truthy body \<and> truthy (body_code body)) \<and> e = tagged error)"
proof (cases "body_truthy body \<and> truthy (body_code body)")
  case True
  with assms have "e = tagged (body_error body)"
    by (simp add: handleResponse_body_error)
  with True show ?thesis by blast
next
  case False
  with assms have "e = tagged error"
    by (simp add: handleResponse_no_body_error split: if_splits)
  with False show ?thesis by blast
qed

text \<open>
  Claim C1 fails on the code for an error that reaches the handler already tagged: the
  handler sets \<open>notFatal\<close> on a signature and never clears it, so an error object with
  \<open>notFatal = true\<close> and the message \<^verbatim>\<open>Insufficient balance\<close>, which has no signature, is
  handed to the callback with its tag.
\<close>

theorem pretagged_error_stays_tagged_counterexample:
  "handleResponse ''addOrder''
      (Obj \<lparr>cls = Error, message = Str ''Insufficient balance'', notFatal = True\<rparr>)
      (BodyPrim Undefined :: unit response_body)
     = Inr (Callback1 (Obj \<lparr>cls = Error, message = Str ''Insufficient balance'',
                             notFatal = True\<rparr>))
   \<and> \<not> includes_any (Str ''Insufficient balance'') recoverableErrors"
  by code_simp

text \<open>
  Claim C1, as the code has it. A failure that \<^verbatim>\<open>handleResponse\<close> hands to the callback
  carries the tag \<open>notFatal\<close> exactly when its message contains one of the signatures of
  \<open>recoverableErrors\<close>, or when it is the REST client's own error object (the body had no
  truthy code) and that object came with the tag. So a failure whose message has no
  signature carries no tag when it was made from a body's code or from a string, or came
  as an object without the tag. Containing is exact, case-sensitive occurrence as a run
  of characters.
\<close>

theorem classifier_tags_by_signature:
  assumes "handleResponse funcName error body = Inr (Callback1 e)"
  shows "(err_notFatal e \<longleftrightarrow>
            includes_any (err_message e) recoverableErrors
            \<or> (\<not> (body_truthy body \<and> truthy (body_code body)) \<and> err_notFatal error))
       \<and> (includes_any (err_message e) recoverableErrors \<longleftrightarrow>
            (\<exists>m. err_message e = Str m \<and>
               (\<exists>item \<in> set recoverableErrors. \<exists>p q. m = p @ item @ q)))"
proof -
  have a: "err_notFatal e \<longleftrightarrow>
            includes_any (err_message e) recoverableErrors
            \<or> (\<not> (body_truthy body \<and> truthy (body_code body)) \<and> err_notFatal error)"
    using handleResponse_Callback1 [OF assms]
  proof
    assume "body_truthy body \<and> truthy (body_code body) \<and> e = tagged (body_error body)"
    then show ?thesis
      using tagged_notFatal_iff [of "body_error body"] body_error_untagged [of body] by blast
  next
    assume "\<not> (body_truthy body \<and> truthy (body_code body)) \<and> e = tagged error"
    then show ?thesis using tagged_notFatal_iff [of error] by blast
  qed
  have c: "includes_any (err_message e) recoverableErrors \<longleftrightarrow>
            (\<exists>m. err_message e = Str m \<and>
               (\<exists>item \<in> set recoverableErrors. \<exists>p q. m = p @ item @ q))"
    using includes_any_iff includes_any_Str [of "err_message e" recoverableErrors] by metis
  from a c show ?thesis by blast
qed

lemma ex_ETIMEDOUT:
  "handleResponse ''getTicker'' (Prim (Str ''connect ETIMEDOUT 10.0.0.1:443'')) (BodyPrim Undefined :: unit response_body)
     = Inr (Callback1 (Obj \<lparr>cls = Error, message = Str ''connect ETIMEDOUT 10.0.0.1:443'', notFatal = True\<rparr>))"
  by code_simp

lemma ex_Insufficient:
  "handleResponse ''addOrder'' (Prim Undefined) (BodyObj (Num (fl_q (- 2010) 1)) (Str ''Insufficient balance'') ())
     = Inr (Callback1 (Obj \<lparr>cls = Error, message = Str ''Error -2010: Insufficient balance'', notFatal = False\<rparr>))"
  by code_simp

theorem classifier_tags_by_signature_witness:
  "handleResponse ''getTicker'' (Prim (Str ''connect ETIMEDOUT 10.0.0.1:443'')) (BodyPrim Undefined :: unit response_body)
     = Inr (Callback1 (Obj \<lparr>cls = Error, message = Str ''connect ETIMEDOUT 10.0.0.1:443'', notFatal = True\<rparr>))
   \<and> includes_any (Str ''connect ETIMEDOUT 10.0.0.1:443'') recoverableErrors
   \<and> handleResponse ''addOrder'' (Prim Undefined) (BodyObj (Num (fl_q (- 2010) 1)) (Str ''Insufficient balance'') ())
     = Inr (Callback1 (Obj \<lparr>cls = Error, message = Str ''Error -2010: Insufficient balance'', notFatal = False\<rparr>))
   \<and> \<not> includes_any (Str ''Error -2010: Insufficient balance'') recoverableErrors"
  using classifier_tags_by_signature [OF ex_ETIMEDOUT] classifier_tags_by_signature [OF ex_Insufficient]
    ex_ETIMEDOUT ex_Insufficient
  by auto


section \<open>Properties of the response handler's error test\<close>

lemma handleResponse_falsy_code:
  assumes "\<not> truthy (body_code body)"
  shows "handleResponse f error body =
     (if err_truthy error then Inr (Callback1 (tagged error)) else Inr (Callback2 None body))"
  using assms by (intro handleResponse_no_body_error) simp

text \<open>
  A body that has only a \<open>msg\<close> has no truthy \<open>code\<close>: with no transport error the handler
  calls back with no error at all and hands the body on as the result.
\<close>

theorem falsy_code_only_msg_counterexample:
  "handleResponse ''addOrder'' (Prim Undefined)
      (BodyObj Undefined (Str ''Insufficient balance'') ())
   = Inr (Callback2 None (BodyObj Undefined (Str ''Insufficient balance'') ()))"
  by (simp add: handleResponse_falsy_code)

text \<open>
  Claim C10, as the code has it. A body whose \<open>code\<close> is absent, zero or otherwise falsy
  is never turned into an error: with no transport error the callback gets no error and
  the body (also when the body has only a \<open>msg\<close>); with a transport error the callback gets
  that error, under its own message, and the error carries the tag \<open>notFatal\<close> exactly when
  its message contains a signature or it came with the tag: an error that comes without
  the tag and with a message without signature is surfaced without it.
\<close>

theorem falsy_code_is_no_error:
  assumes "\<not> truthy (body_code body)"
  shows "(\<not> err_truthy error \<longrightarrow> handleResponse funcName error body = Inr (Callback2 None body))
       \<and> (err_truthy error \<longrightarrow>
            handleResponse funcName error body = Inr (Callback1 (tagged error))
            \<and> err_message (tagged error)
                = err_message (case error of Prim (Str s) \<Rightarrow> new_Error Error s | _ \<Rightarrow> error)
            \<and> (err_notFatal (tagged error) \<longleftrightarrow>
                 includes_any (err_message (tagged error)) recoverableErrors
                 \<or> err_notFatal error))"
proof -
  have m: "err_message (tagged error)
            = err_message (case error of Prim (Str s) \<Rightarrow> new_Error Error s | _ \<Rightarrow> error)"
    by (cases error; simp add: tagged_def Let_def new_Error_def split: jsval.splits)
  show ?thesis
    using handleResponse_falsy_code [OF assms] tagged_notFatal_iff [of error] m
    by simp
qed

lemma ex_zero_code:
  "handleResponse ''getTicker'' (Prim Undefined) (BodyObj (Num (fl_q 0 1)) (Str ''ok'') ())
     = Inr (Callback2 None (BodyObj (Num (fl_q 0 1)) (Str ''ok'') ()))"
  by code_simp

theorem falsy_code_is_no_error_witness:
  "\<not> truthy (body_code (BodyObj (Num (fl_q 0 1)) (Str ''ok'') ()))
   \<and> handleResponse ''getTicker'' (Prim Undefined) (BodyObj (Num (fl_q 0 1)) (Str ''ok'') ())
     = Inr (Callback2 None (BodyObj (Num (fl_q 0 1)) (Str ''ok'') ()))
   \<and> handleResponse ''getTicker'' (Prim (Str ''Invalid API-key'')) (BodyObj (Bool False) (Str ''ok'') ())
     = Inr (Callback1 (Obj \<lparr>cls = Error, message = Str ''Invalid API-key'', notFatal = False\<rparr>))"
proof -
  have h1: "\<not> truthy (body_code (BodyObj (Num (fl_q 0 1)) (Str ''ok'') ()))"
    by (simp add: fl_q_def)
  have h2: "\<not> truthy (body_code (BodyObj (Bool False) (Str ''ok'') ()))"
    by simp
  have t: "tagged (Prim (Str ''Invalid API-key''))
        = Obj \<lparr>cls = Error, message = Str ''Invalid API-key'', notFatal = False\<rparr>"
    by code_simp
  have w1: "handleResponse ''getTicker'' (Prim Undefined) (BodyObj (Num (fl_q 0 1)) (Str ''ok'') ())
     = Inr (Callback2 None (BodyObj (Num (fl_q 0 1)) (Str ''ok'') ()))"
    using falsy_code_is_no_error [OF h1, of "Prim Undefined" "''getTicker''"] by simp
  have w2: "handleResponse ''getTicker'' (Prim (Str ''Invalid API-key'')) (BodyObj (Bool False) (Str ''ok'') ())
     = Inr (Callback1 (Obj \<lparr>cls = Error, message = Str ''Invalid API-key'', notFatal = False\<rparr>))"
    using falsy_code_is_no_error [OF h2, of "Prim (Str ''Invalid API-key'')" "''getTicker''"]
    by (simp add: t new_Error_def)
  from h1 w1 w2 show ?thesis by blast
qed

section \<open>Properties of order status and cancellation\<close>

lemma executedQty_half: "StringToNumber ''0.5'' = fl_q 1 2"
  by code_simp

text \<open>
  Claim C6. \<^verbatim>\<open>checkOrder\<close> maps \<^verbatim>\<open>CANCELED\<close>, \<^verbatim>\<open>REJECTED\<close> and \<^verbatim>\<open>EXPIRED\<close> to not executed and not
  open, \<^verbatim>\<open>NEW\<close> and \<^verbatim>\<open>PARTIALLY_FILLED\<close> to not executed, open and the numeric \<open>executedQty\<close> as
  filled amount (\<open>0.5\<close> for \<^verbatim>\<open>"0.5"\<close>), \<^verbatim>\<open>FILLED\<close> to executed and not open; on any other status
  it throws the status instead of calling back.
\<close>

theorem checkOrder_status_mapping:
  assumes "\<not> err_truthy err"
  shows "check err \<lparr>status = Str ''CANCELED'', executedQty = q\<rparr>
           = Inr (Completed \<lparr>executed = False, is_open = False, filledAmount = None\<rparr>)
       \<and> check err \<lparr>status = Str ''REJECTED'', executedQty = q\<rparr>
           = Inr (Completed \<lparr>executed = False, is_open = False, filledAmount = None\<rparr>)
       \<and> check err \<lparr>status = Str ''EXPIRED'', executedQty = q\<rparr>
           = Inr (Completed \<lparr>executed = False, is_open = False, filledAmount = None\<rparr>)
       \<and> check err \<lparr>status = Str ''NEW'', executedQty = q\<rparr>
           = Inr (Completed \<lparr>executed = False, is_open = True, filledAmount = Some (ToNumber q)\<rparr>)
       \<and> check err \<lparr>status = Str ''PARTIALLY_FILLED'', executedQty = q\<rparr>
           = Inr (Completed \<lparr>executed = False, is_open = True, filledAmount = Some (ToNumber q)\<rparr>)
       \<and> check err \<lparr>status = Str ''PARTIALLY_FILLED'', executedQty = Str ''0.5''\<rparr>
           = Inr (Completed \<lparr>executed = False, is_open = True, filledAmount = Some (fl_q 1 2)\<rparr>)
       \<and> check err \<lparr>status = Str ''FILLED'', executedQty = q\<rparr>
           = Inr (Completed \<lparr>executed = True, is_open = False, filledAmount = None\<rparr>)
       \<and> (st \<notin> set [Str ''CANCELED'', Str ''REJECTED'', Str ''EXPIRED'', Str ''NEW'',
                     Str ''PARTIALLY_FILLED'', Str ''FILLED'']
            \<longrightarrow> check err \<lparr>status = st, executedQty = q\<rparr> = Inl (Thrown st))"
proof -
  have other: "st \<notin> set [Str ''CANCELED'', Str ''REJECTED'', Str ''EXPIRED'', Str ''NEW'',
                     Str ''PARTIALLY_FILLED'', Str ''FILLED'']
            \<longrightarrow> check err \<lparr>status = st, executedQty = q\<rparr> = Inl (Thrown st)"
    using assms by (cases st) (simp_all add: check_def)
  show ?thesis
    using assms other by (simp add: check_def executedQty_half)
qed

theorem checkOrder_status_mapping_witness:
  "\<not> err_truthy (Prim Undefined)
   \<and> check (Prim Undefined) \<lparr>status = Str ''PARTIALLY_FILLED'', executedQty = Str ''0.5''\<rparr>
       = Inr (Completed \<lparr>executed = False, is_open = True, filledAmount = Some (fl_q 1 2)\<rparr>)
   \<and> check (Prim Undefined) \<lparr>status = Str ''PENDING_CANCEL'', executedQty = Str ''0''\<rparr>
       = Inl (Thrown (Str ''PENDING_CANCEL''))"
proof -
  have h: "\<not> err_truthy (Prim Undefined)" by simp
  show ?thesis
    using checkOrder_status_mapping [OF h, of "Str ''0''" "Str ''PENDING_CANCEL''"] h
    by simp
qed

text \<open>
  Claim C4. The completion of \<^verbatim>\<open>cancelOrder\<close> gets from the retry helper the error of the
  cancel request or none. On an error whose message includes \<^verbatim>\<open>UNKNOWN_ORDER\<close> it completes
  with \<open>true\<close> and no error; with no error it completes with \<open>false\<close>.
\<close>

theorem cancelOrder_unknown_order_is_filled:
  "(err_message err = Str m \<and> str_includes m ''UNKNOWN_ORDER''
      \<longrightarrow> cancel err data = Inr (Completed True))
   \<and> (\<not> err_truthy err \<longrightarrow> cancel err data = Inr (Completed False))"
  by (cases err) (simp_all add: cancel_def)

lemma ex_unknown_order:
  "str_includes ''Error -2011: UNKNOWN_ORDER'' ''UNKNOWN_ORDER''"
  by code_simp

theorem cancelOrder_unknown_order_is_filled_witness:
  "cancel (new_Error Error ''Error -2011: UNKNOWN_ORDER'') () = Inr (Completed True)
   \<and> cancel (Prim Undefined) () = Inr (Completed False)"
  using cancelOrder_unknown_order_is_filled
          [of "new_Error Error ''Error -2011: UNKNOWN_ORDER''" "''Error -2011: UNKNOWN_ORDER''" "()"]
        cancelOrder_unknown_order_is_filled [of "Prim Undefined" "''''" "()"]
        ex_unknown_order
  by (simp add: new_Error_def)

section \<open>Properties of the portfolio\<close>

text \<open>
  Claim C7 does not hold of the code. When the \<open>free\<close> field of the asset's entry is no
  number (or is absent), or when the entry itself is missing, \<^verbatim>\<open>setBalance\<close> raises a
  \<^verbatim>\<open>TypeError\<close> instead of completing with \<open>0\<close>; with both entries well-formed it completes.
\<close>

theorem getPortfolio_NaN_or_missing_balance_throws:
  "setBalance ''BTC'' ''USDT'' (Prim Undefined)
      [\<lparr>asset = Str ''BTC'', free = Str ''abc''\<rparr>, \<lparr>asset = Str ''USDT'', free = Str ''12.5''\<rparr>]
     = Inl TypeError
   \<and> setBalance ''BTC'' ''USDT'' (Prim Undefined)
      [\<lparr>asset = Str ''BTC'', free = Undefined\<rparr>, \<lparr>asset = Str ''USDT'', free = Str ''12.5''\<rparr>]
     = Inl TypeError
   \<and> setBalance ''BTC'' ''USDT'' (Prim Undefined)
      [\<lparr>asset = Str ''USDT'', free = Str ''12.5''\<rparr>]
     = Inl TypeError
   \<and> setBalance ''BTC'' ''USDT'' (Prim Undefined)
      [\<lparr>asset = Str ''BTC'', free = Str ''0.25''\<rparr>, \<lparr>asset = Str ''USDT'', free = Str ''12.5''\<rparr>]
     = Inr (Completed [(''BTC'', fl_q 1 4), (''USDT'', fl_q 25 2)])"
  by code_simp


section \<open>Properties of the precision loop\<close>

lemma loop_unfold:
  "getPrecision_loop t e p =
     (if \<not> rt_at t e then getPrecision_loop t (times_ten e) (p + 1) else Some p)"
  by (subst getPrecision_loop.simps) (simp add: rt_at_def times_ten_def)

lemma loop_skip:
  "(\<And>j. j < k \<Longrightarrow> \<not> rt_at t ((times_ten ^^ j) e)) \<Longrightarrow>
   getPrecision_loop t e p = getPrecision_loop t ((times_ten ^^ k) e) (p + k)"
proof (induction k arbitrary: e p)
  case 0
  then show ?case by simp
next
  case (Suc k)
  from Suc.prems [of 0] have c: "\<not> rt_at t e" by simp
  have "getPrecision_loop t e p = getPrecision_loop t (times_ten e) (p + 1)"
    by (subst loop_unfold) (simp add: c)
  also have "\<dots> = getPrecision_loop t ((times_ten ^^ k) (times_ten e)) (p + 1 + k)"
  proof (rule Suc.IH)
    fix j assume "j < k"
    then have "Suc j < Suc k" by simp
    from Suc.prems [OF this] show "\<not> rt_at t ((times_ten ^^ j) (times_ten e))"
      by (simp add: funpow_swap1)
  qed
  finally show ?case by (simp add: funpow_swap1)
qed

lemma loop_stop: "rt_at t e \<Longrightarrow> getPrecision_loop t e p = Some p"
  by (subst loop_unfold) simp

lemma round_trips_rt_at: "round_trips t k = rt_at t (tens k)"
  by (simp add: round_trips_def rt_at_def)

lemma loop_first:
  assumes "round_trips t k" and "\<And>j. j < k \<Longrightarrow> \<not> round_trips t j"
  shows "getPrecision_loop t (fl_q 1 1) 0 = Some k"
proof -
  have "getPrecision_loop t (fl_q 1 1) 0 = getPrecision_loop t ((times_ten ^^ k) (fl_q 1 1)) (0 + k)"
    using assms(2) by (intro loop_skip) (simp add: round_trips_rt_at tens_def)
  also have "\<dots> = Some k"
    using assms(1) by (simp add: loop_stop round_trips_rt_at tens_def)
  finally show ?thesis .
qed

lemma loop_Some_ex:
  assumes "getPrecision_loop t e p = Some y"
  shows "\<exists>j. rt_at t ((times_ten ^^ j) e)"
proof (rule getPrecision_loop.raw_induct
         [where P = "\<lambda>t e p y. \<exists>j. rt_at t ((times_ten ^^ j) e)", OF _ assms])
  fix f t e p y
  assume IH: "\<And>e p b y. f e p b = Some y \<Longrightarrow> \<exists>j. rt_at e ((times_ten ^^ j) p)"
    and eq: "(if \<not> strict_eq_num (js_div (Math_round (js_mul t e)) e) t
              then f t (js_mul e (fl_q 10 1)) (p + 1) else Some p) = Some y"
  show "\<exists>j. rt_at t ((times_ten ^^ j) e)"
  proof (cases "rt_at t e")
    case True
    then have "rt_at t ((times_ten ^^ 0) e)" by simp
    then show ?thesis by blast
  next
    case False
    with eq have "f t (times_ten e) (p + 1) = Some y"
      by (simp add: rt_at_def times_ten_def)
    from IH [OF this] obtain j where "rt_at t ((times_ten ^^ j) (times_ten e))" by blast
    then have "rt_at t ((times_ten ^^ Suc j) e)" by (simp add: funpow_swap1)
    then show ?thesis by blast
  qed
qed

lemma loop_Some_round_trips:
  "getPrecision_loop t (fl_q 1 1) 0 = Some y \<Longrightarrow> \<exists>j. round_trips t j"
  using loop_Some_ex [of t "fl_q 1 1" 0 y] by (simp add: round_trips_rt_at tens_def)

lemma loop_least:
  assumes "round_trips t j"
  shows "getPrecision_loop t (fl_q 1 1) 0 = Some (LEAST i. round_trips t i)"
proof (rule loop_first)
  show "round_trips t (LEAST i. round_trips t i)" using assms by (rule LeastI)
  fix i assume "i < (LEAST i. round_trips t i)"
  then show "\<not> round_trips t i" by (rule not_less_Least)
qed

lemma loop_Some_iff:
  "getPrecision_loop t (fl_q 1 1) 0 = Some k
     \<longleftrightarrow> round_trips t k \<and> (\<forall>j<k. \<not> round_trips t j)"
proof
  assume s: "getPrecision_loop t (fl_q 1 1) 0 = Some k"
  then obtain j where j: "round_trips t j" using loop_Some_round_trips by blast
  from loop_least [OF j] s have k: "k = (LEAST i. round_trips t i)" by simp
  show "round_trips t k \<and> (\<forall>j<k. \<not> round_trips t j)"
    unfolding k using j by (auto intro: LeastI dest: not_less_Least)
next
  assume "round_trips t k \<and> (\<forall>j<k. \<not> round_trips t j)"
  then show "getPrecision_loop t (fl_q 1 1) 0 = Some k"
    by (intro loop_first) auto
qed

lemma loop_None_iff:
  "getPrecision_loop t (fl_q 1 1) 0 = None \<longleftrightarrow> (\<forall>j. \<not> round_trips t j)"
proof
  assume n: "getPrecision_loop t (fl_q 1 1) 0 = None"
  show "\<forall>j. \<not> round_trips t j"
  proof (intro allI notI)
    fix j assume "round_trips t j"
    from loop_least [OF this] n show False by simp
  qed
next
  assume n: "\<forall>j. \<not> round_trips t j"
  show "getPrecision_loop t (fl_q 1 1) 0 = None"
  proof (cases "getPrecision_loop t (fl_q 1 1) 0")
    case None then show ?thesis .
  next
    case (Some y)
    from loop_Some_round_trips [OF this] n show ?thesis by blast
  qed
qed

lemma one_eval: "fl_q 1 1 = Fin 4503599627370496 (- 52)"
  by code_simp

lemma ten_eval: "fl_q 10 1 = Fin 5629499534213120 (- 49)"
  by code_simp

lemma big_one: "big (fl_q 1 1)"
  by (simp add: one_eval big_def)

lemma big_times_ten:
  assumes "big e"
  shows "big (times_ten e)"
proof (cases "e = PInf")
  case True
  then show ?thesis by (simp add: times_ten_def ten_eval big_def)
next
  case False
  with assms obtain m x where e: "e = Fin m x" and m: "4503599627370496 \<le> m"
    and x: "- 52 \<le> x" by (auto simp: big_def)
  let ?n = "m * 5629499534213120 * 2 ^ nat (x - 49)"
  let ?d = "(2::int) ^ nat (- (x - 49))"
  have t: "times_ten e = fl_q ?n ?d"
    by (simp add: e times_ten_def ten_eval fl_de_def)
  have "nat (- (x - 49)) \<le> 101" using x by simp
  then have "?d \<le> 2 ^ 101" by (intro power_increasing) simp_all
  also have "\<dots> \<le> 4503599627370496 * (5629499534213120::int)" by simp
  also have "\<dots> \<le> m * 5629499534213120" using m by simp
  also have "\<dots> = m * 5629499534213120 * 1" by simp
  also have "\<dots> \<le> ?n" using m by (intro mult_left_mono) simp_all
  finally have dn: "?d \<le> ?n" .
  have dpos: "0 < ?d" by simp
  from fl_q_ge1 [OF dpos dn] show ?thesis unfolding t big_def by blast
qed

lemma big_tens: "big (tens k)"
  by (induction k) (simp_all add: tens_def big_one big_times_ten)

text \<open>The smallest positive number, \<open>2 ^ - 1074\<close>, never round-trips.\<close>

lemma min_value_never_round_trips:
  assumes "big e"
  shows "\<not> rt_at (Fin 1 (- 1074)) e"
proof (cases "e = PInf")
  case True
  then show ?thesis by (simp add: rt_at_def)
next
  case False
  with assms obtain m x where e: "e = Fin m x" and m: "4503599627370496 \<le> m"
    and m2: "m < 9007199254740992" and x: "x \<le> 971" by (auto simp: big_def)
  let ?d = "(2::int) ^ nat (1074 - x)"
  have p: "js_mul (Fin 1 (- 1074)) e = fl_q m ?d"
    using x by (simp add: e fl_de_def)
  have "4 * m \<le> 2 ^ 103" using m2 by simp
  also have "(2::int) ^ 103 \<le> ?d" using x by (intro power_increasing) simp_all
  finally have s: "4 * m \<le> ?d" .
  have mpos: "0 < m" using m by simp
  have dpos: "0 < ?d" by simp
  have r: "Math_round (js_mul (Fin 1 (- 1074)) e) = Fin 0 (- 1074)"
    unfolding p by (rule fl_q_small [OF mpos dpos s])
  have "js_div (Fin 0 (- 1074)) e = Fin 0 (- 1074)"
    using mpos by (simp add: e fl_q_def)
  then show ?thesis by (simp add: rt_at_def r)
qed

text \<open>
  Claim C8 fails on the code: the loop of \<^verbatim>\<open>getPrecision\<close> has no bound, and on the
  smallest positive number it never ends.
\<close>

theorem getPrecision_min_value_counterexample:
  "getPrecision (Fin 1 (- 1074)) = None"
proof -
  have "\<forall>j. \<not> round_trips (Fin 1 (- 1074)) j"
    by (simp add: round_trips_rt_at min_value_never_round_trips big_tens)
  then show ?thesis by (simp add: getPrecision_def loop_None_iff)
qed

text \<open>
  Claim C8, as the code has it. \<^verbatim>\<open>getPrecision\<close> returns \<open>0\<close> at once for a tick size that is
  not finite; for a finite one it returns the first count \<open>k\<close> at which the tick size
  round-trips, whatever its size, and it returns nothing at all exactly when no count
  round-trips.
\<close>

theorem getPrecision_least_round_trip:
  "(\<not> isFinite t \<longrightarrow> getPrecision t = Some 0)
   \<and> (isFinite t \<longrightarrow>
        (getPrecision t = Some k \<longleftrightarrow> round_trips t k \<and> (\<forall>j<k. \<not> round_trips t j))
        \<and> (getPrecision t = None \<longleftrightarrow> (\<forall>j. \<not> round_trips t j)))"
  using loop_Some_iff [of t k] loop_None_iff [of t] by (simp add: getPrecision_def)

lemma rt_001:
  "round_trips (fl_q 1 100) 2 \<and> \<not> round_trips (fl_q 1 100) 1 \<and> \<not> round_trips (fl_q 1 100) 0"
  by code_simp

lemma rt_16:
  "getPrecision (fl_q 1 (10 ^ 16)) = Some 16"
  by code_simp

theorem getPrecision_least_round_trip_witness:
  "isFinite (fl_q 1 100) \<and> getPrecision (fl_q 1 100) = Some 2 \<and> getPrecision NaN = Some 0
   \<and> isFinite (fl_q 1 (10 ^ 16)) \<and> round_trips (fl_q 1 (10 ^ 16)) 16"
proof -
  have f: "isFinite (fl_q 1 100)" by code_simp
  have f16: "isFinite (fl_q 1 (10 ^ 16))" by code_simp
  have l: "\<forall>j<2. \<not> round_trips (fl_q 1 100) j"
    using rt_001 by (auto simp: less_Suc_eq numeral_2_eq_2)
  have a: "getPrecision (fl_q 1 100) = Some 2"
    using getPrecision_least_round_trip [of "fl_q 1 100" 2] f l rt_001 by blast
  have b: "getPrecision NaN = Some 0"
    using getPrecision_least_round_trip [of NaN 0] by simp
  have c: "round_trips (fl_q 1 (10 ^ 16)) 16"
    using getPrecision_least_round_trip [of "fl_q 1 (10 ^ 16)" 16] f16 rt_16 by blast
  from f a b f16 c show ?thesis by blast
qed

section \<open>Properties of the precision of powers of ten\<close>

lemma gp_neg_0: "getPrecision (fl_q 1 (10 ^ 0)) = Some 0" by code_simp
lemma gp_neg_1: "getPrecision (fl_q 1 (10 ^ 1)) = Some 1" by code_simp
lemma gp_neg_2: "getPrecision (fl_q 1 (10 ^ 2)) = Some 2" by code_simp
lemma gp_neg_3: "getPrecision (fl_q 1 (10 ^ 3)) = Some 3" by code_simp
lemma gp_neg_4: "getPrecision (fl_q 1 (10 ^ 4)) = Some 4" by code_simp
lemma gp_neg_5: "getPrecision (fl_q 1 (10 ^ 5)) = Some 5" by code_simp
lemma gp_neg_6: "getPrecision (fl_q 1 (10 ^ 6)) = Some 6" by code_simp
lemma gp_neg_7: "getPrecision (fl_q 1 (10 ^ 7)) = Some 7" by code_simp
lemma gp_neg_8: "getPrecision (fl_q 1 (10 ^ 8)) = Some 8" by code_simp
lemma gp_neg_9: "getPrecision (fl_q 1 (10 ^ 9)) = Some 9" by code_simp
lemma gp_neg_10: "getPrecision (fl_q 1 (10 ^ 10)) = Some 10" by code_simp
lemma gp_neg_11: "getPrecision (fl_q 1 (10 ^ 11)) = Some 11" by code_simp
lemma gp_neg_12: "getPrecision (fl_q 1 (10 ^ 12)) = Some 12" by code_simp
lemma gp_neg_13: "getPrecision (fl_q 1 (10 ^ 13)) = Some 13" by code_simp
lemma gp_neg_14: "getPrecision (fl_q 1 (10 ^ 14)) = Some 14" by code_simp
lemma gp_neg_15: "getPrecision (fl_q 1 (10 ^ 15)) = Some 15" by code_simp
lemma gp_neg_16: "getPrecision (fl_q 1 (10 ^ 16)) = Some 16" by code_simp
lemma gp_neg_17: "getPrecision (fl_q 1 (10 ^ 17)) = Some 17" by code_simp
lemma gp_neg_18: "getPrecision (fl_q 1 (10 ^ 18)) = Some 18" by code_simp
lemma gp_neg_19: "getPrecision (fl_q 1 (10 ^ 19)) = Some 19" by code_simp
lemma gp_neg_20: "getPrecision (fl_q 1 (10 ^ 20)) = Some 20" by code_simp
lemma gp_neg_21: "getPrecision (fl_q 1 (10 ^ 21)) = Some 21" by code_simp
lemma gp_neg_22: "getPrecision (fl_q 1 (10 ^ 22)) = Some 22" by code_simp
lemma gp_pos_0: "getPrecision (fl_q (10 ^ 0) 1) = Some 0" by code_simp
lemma gp_pos_1: "getPrecision (fl_q (10 ^ 1) 1) = Some 0" by code_simp
lemma gp_pos_2: "getPrecision (fl_q (10 ^ 2) 1) = Some 0" by code_simp
lemma gp_pos_3: "getPrecision (fl_q (10 ^ 3) 1) = Some 0" by code_simp
lemma gp_pos_4: "getPrecision (fl_q (10 ^ 4) 1) = Some 0" by code_simp
lemma gp_pos_5: "getPrecision (fl_q (10 ^ 5) 1) = Some 0" by code_simp
lemma gp_pos_6: "getPrecision (fl_q (10 ^ 6) 1) = Some 0" by code_simp
lemma gp_pos_7: "getPrecision (fl_q (10 ^ 7) 1) = Some 0" by code_simp
lemma gp_pos_8: "getPrecision (fl_q (10 ^ 8) 1) = Some 0" by code_simp
lemma gp_pos_9: "getPrecision (fl_q (10 ^ 9) 1) = Some 0" by code_simp
lemma gp_pos_10: "getPrecision (fl_q (10 ^ 10) 1) = Some 0" by code_simp
lemma gp_pos_11: "getPrecision (fl_q (10 ^ 11) 1) = Some 0" by code_simp
lemma gp_pos_12: "getPrecision (fl_q (10 ^ 12) 1) = Some 0" by code_simp
lemma gp_pos_13: "getPrecision (fl_q (10 ^ 13) 1) = Some 0" by code_simp
lemma gp_pos_14: "getPrecision (fl_q (10 ^ 14) 1) = Some 0" by code_simp
lemma gp_pos_15: "getPrecision (fl_q (10 ^ 15) 1) = Some 0" by code_simp
lemma gp_pos_16: "getPrecision (fl_q (10 ^ 16) 1) = Some 0" by code_simp
lemma gp_pos_17: "getPrecision (fl_q (10 ^ 17) 1) = Some 0" by code_simp
lemma gp_pos_18: "getPrecision (fl_q (10 ^ 18) 1) = Some 0" by code_simp
lemma gp_pos_19: "getPrecision (fl_q (10 ^ 19) 1) = Some 0" by code_simp
lemma gp_pos_20: "getPrecision (fl_q (10 ^ 20) 1) = Some 0" by code_simp
lemma gp_pos_21: "getPrecision (fl_q (10 ^ 21) 1) = Some 0" by code_simp
lemma gp_pos_22: "getPrecision (fl_q (10 ^ 22) 1) = Some 0" by code_simp

lemma le_22_cases:
  "(k::nat) \<le> 22 \<Longrightarrow> k \<in> set [0, 1, 2, 3, 4, 5, 6, 7, 8, 9, 10, 11, 12, 13, 14, 15, 16, 17, 18, 19, 20, 21, 22]"
  by (simp only: set_simps insert_iff empty_iff) arith

lemma gp_neg_all:
  "\<forall>k \<in> set [0, 1, 2, 3, 4, 5, 6, 7, 8, 9, 10, 11, 12, 13, 14, 15, 16, 17, 18, 19, 20, 21, 22]. getPrecision (fl_q 1 (10 ^ k)) = Some k"
  using gp_neg_0 gp_neg_1 gp_neg_2 gp_neg_3 gp_neg_4 gp_neg_5 gp_neg_6 gp_neg_7 gp_neg_8 gp_neg_9 gp_neg_10 gp_neg_11 gp_neg_12 gp_neg_13 gp_neg_14 gp_neg_15 gp_neg_16 gp_neg_17 gp_neg_18 gp_neg_19 gp_neg_20 gp_neg_21 gp_neg_22
  by simp

lemma gp_pos_all:
  "\<forall>k \<in> set [0, 1, 2, 3, 4, 5, 6, 7, 8, 9, 10, 11, 12, 13, 14, 15, 16, 17, 18, 19, 20, 21, 22]. getPrecision (fl_q (10 ^ k) 1) = Some 0"
  using gp_pos_0 gp_pos_1 gp_pos_2 gp_pos_3 gp_pos_4 gp_pos_5 gp_pos_6 gp_pos_7 gp_pos_8 gp_pos_9 gp_pos_10 gp_pos_11 gp_pos_12 gp_pos_13 gp_pos_14 gp_pos_15 gp_pos_16 gp_pos_17 gp_pos_18 gp_pos_19 gp_pos_20 gp_pos_21 gp_pos_22
  by simp

lemma gp_zero: "getPrecision (Fin 0 (- 1074)) = Some 0"
  by code_simp

lemma gp_scenario:
  "round_tick (Num (fl_q 1234 (10 ^ 10))) (fl_q 1 (10 ^ 7)) = Some (Inr ''0.0000001'')"
  by code_simp

text \<open>
  Claim C3 fails for the tick size \<open>1e-23\<close>, the number nearest to \<open>1 / 10 ^ 23\<close>: its
  precision comes out as \<open>24\<close>.
\<close>

theorem getPrecision_1e_23_counterexample:
  "getPrecision (fl_q 1 (10 ^ 23)) = Some 24"
  by code_simp

text \<open>
  Claim C3, as the code has it. For \<open>k\<close> up to \<open>22\<close> (the powers of ten that a number
  holds exactly), \<^verbatim>\<open>getPrecision\<close> is \<open>k\<close> on the tick size \<open>1e-k\<close> (the number nearest to
  \<open>1 / 10 ^ k\<close>) and \<open>0\<close> on the tick size \<open>10 ^ k\<close>; it is \<open>0\<close> on \<open>0\<close> and on infinity; and
  \<^verbatim>\<open>round(0.0000001234, 0.0000001)\<close>, with precision \<open>7\<close>, is the string \<^verbatim>\<open>0.0000001\<close>.
\<close>

theorem getPrecision_powers_of_ten:
  assumes "k \<le> 22"
  shows "getPrecision (fl_q 1 (10 ^ k)) = Some k
       \<and> getPrecision (fl_q (10 ^ k) 1) = Some 0
       \<and> getPrecision (Fin 0 (- 1074)) = Some 0
       \<and> getPrecision PInf = Some 0
       \<and> round_tick (Num (fl_q 1234 (10 ^ 10))) (fl_q 1 (10 ^ 7)) = Some (Inr ''0.0000001'')"
proof -
  note m = le_22_cases [OF assms]
  have a: "getPrecision (fl_q 1 (10 ^ k)) = Some k" using gp_neg_all m by (rule bspec)
  have b: "getPrecision (fl_q (10 ^ k) 1) = Some 0" using gp_pos_all m by (rule bspec)
  have c: "getPrecision PInf = Some 0" by (simp add: getPrecision_def)
  from a b c gp_zero gp_scenario show ?thesis by blast
qed

theorem getPrecision_powers_of_ten_witness:
  "(7::nat) \<le> 22 \<and> getPrecision (fl_q 1 (10 ^ 7)) = Some 7
   \<and> getPrecision (fl_q (10 ^ 7) 1) = Some 0"
  using getPrecision_powers_of_ten [of 7] by simp

section \<open>Properties of rounding to a tick size\<close>

lemma cx_idem_1:
  "round_tick (Num (StringToNumber ''0.295'')) (StringToNumber ''0.01'') = Some (Inr ''0.29'')"
  by code_simp

lemma cx_idem_2:
  "round_tick (Str ''0.29'') (StringToNumber ''0.01'') = Some (Inr ''0.28'')"
  by code_simp

lemma cx_idem_3:
  "js_mul (StringToNumber ''0.29'') (Math_pow10 2) = StringToNumber ''28.999999999999996''"
  by code_simp

text \<open>
  Claim C9 fails on the code: \<^verbatim>\<open>round(0.295, 0.01)\<close> is \<^verbatim>\<open>"0.29"\<close>, and \<^verbatim>\<open>round("0.29", 0.01)\<close> is
  \<^verbatim>\<open>"0.28"\<close>, because \<^verbatim>\<open>0.29 * 100\<close> is \<open>28.999999999999996\<close>.
\<close>

theorem round_not_idempotent_counterexample:
  "round_tick (Num (StringToNumber ''0.295'')) (StringToNumber ''0.01'') = Some (Inr ''0.29'')
   \<and> round_tick (Str ''0.29'') (StringToNumber ''0.01'') = Some (Inr ''0.28'')
   \<and> js_mul (StringToNumber ''0.29'') (Math_pow10 2) = StringToNumber ''28.999999999999996''"
  using cx_idem_1 cx_idem_2 cx_idem_3 by blast






section \<open>Properties of the fills of an order\<close>

lemma fl_q_not_NaN: "fl_q n d \<noteq> NaN"
  by (simp add: fl_q_def Let_def)

lemma js_add_commute: "js_add a b = js_add b a"
  by (cases a; cases b) (simp_all add: min.commute add.commute Let_def)

lemma pow2_quot: "real_of_int (2 ^ nat g) / real_of_int (2 ^ nat (- g)) = 2 powi g"
proof (cases "0 \<le> g")
  case True
  then show ?thesis by (simp add: powi_nonneg)
next
  case False
  then show ?thesis by (simp add: powi_neg)
qed

lemma fl_de_exact:
  assumes "is_double m e'" "real_of_int n * 2 powi e = real_of_int m * 2 powi e'"
  shows "fl_de n e = Fin m e'"
  unfolding fl_de_def
proof (rule fl_q_exact [OF assms(1)])
  show "0 < (2::int) ^ nat (- e)" by simp
  have "real_of_int (n * 2 ^ nat e) / real_of_int (2 ^ nat (- e))
          = real_of_int n * (real_of_int (2 ^ nat e) / real_of_int (2 ^ nat (- e)))"
    by simp
  also have "\<dots> = real_of_int n * 2 powi e" by (simp only: pow2_quot)
  finally show "real_of_int (n * 2 ^ nat e) / real_of_int (2 ^ nat (- e))
          = real_of_int m * 2 powi e'"
    using assms(2) by simp
qed

lemma js_add_zero_left:
  assumes "is_double b f"
  shows "js_add (Fin 0 z) (Fin b f) = Fin b f"
proof -
  let ?g = "min z f"
  have "real_of_int (b * 2 ^ nat (f - ?g)) * 2 powi ?g = real_of_int b * 2 powi f"
  proof -
    have p: "(2::real) ^ nat (f - ?g) = 2 powi (f - ?g)"
      by (simp add: powi_nonneg)
    have "real_of_int (b * 2 ^ nat (f - ?g)) * 2 powi ?g
            = real_of_int b * ((2::real) ^ nat (f - ?g) * 2 powi ?g)"
      by simp
    also have "\<dots> = real_of_int b * (2 powi (f - ?g) * 2 powi ?g)" by (simp only: p)
    also have "\<dots> = real_of_int b * 2 powi (f - ?g + ?g)" by (simp only: powi2_add)
    also have "\<dots> = real_of_int b * 2 powi f" by simp
    finally show ?thesis .
  qed
  from fl_de_exact [OF assms this] show ?thesis by (simp add: Let_def)
qed

lemma js_add_not_NaN: "x \<noteq> NaN \<Longrightarrow> js_add x (Fin b f) \<noteq> NaN"
  by (cases x) (simp_all add: Let_def fl_de_def fl_q_not_NaN)


lemma map_of_fees_put: "map_of (fees_put fs k v) = (map_of fs)(k \<mapsto> v)"
  by (induction fs) (auto simp: fun_eq_iff)

lemma spec_fee_sum_snoc:
  "spec_fee_sum (cs @ [(k', c)]) k =
     (if k' = k then (case spec_fee_sum cs k of None \<Rightarrow> Some c | Some x \<Rightarrow> Some (js_add x c))
      else spec_fee_sum cs k)"
  by (cases "map snd (filter (\<lambda>c. fst c = k) cs)") (simp_all add: spec_fee_sum_def)

lemma spec_avg_snoc:
  "spec_weighted_average (fs @ [f]) = spec_avg_step (spec_weighted_average fs) f"
  by (simp add: spec_weighted_average_def)

lemma fill_step_price_amount:
  "(price (fill_step s t), amount (fill_step s t))
     = spec_avg_step (price s, amount s) (fill_price_qty t)"
  by (simp add: fill_step_def spec_avg_step_def fill_price_qty_def Let_def
        js_add_commute [of "ToNumber (trade_qty t)"])

lemma fill_step_fees:
  assumes c: "finite_double (ToNumber (trade_commission t))"
    and nk: "\<not> Object_prototype_has (trade_commissionAsset t)"
    and nn: "map_of (fees s) (trade_commissionAsset t) = None
             \<or> (\<exists>x. map_of (fees s) (trade_commissionAsset t) = Some (Num x) \<and> x \<noteq> NaN)"
  shows "map_of (fees (fill_step s t)) =
           (map_of (fees s))(trade_commissionAsset t \<mapsto>
              Num (case map_of (fees s) (trade_commissionAsset t) of
                     None \<Rightarrow> ToNumber (trade_commission t)
                   | Some v \<Rightarrow> js_add (ToNumber v) (ToNumber (trade_commission t))))"
proof -
  let ?k = "trade_commissionAsset t"
  let ?c = "ToNumber (trade_commission t)"
  from c obtain b f where cf: "?c = Fin b f" and d: "is_double b f"
    by (auto simp: finite_double_def split: jsnum.splits)
  from nk have k1: "?k \<noteq> ''__proto__''" and k2: "map_of Object_prototype_functions ?k = None"
    by (simp_all add: Object_prototype_has_def)
  have st: "fees_set fs ?k v = fees_put fs ?k v" for fs v
    using k1 by (simp add: fees_set_def)
  from nn show ?thesis
  proof
    assume n: "map_of (fees s) ?k = None"
    then have "fees_get (fees s) ?k = Absent" using k1 k2 by (simp add: fees_get_def)
    then show ?thesis
      using n by (simp add: fill_step_def Let_def st map_of_fees_put)
  next
    assume "\<exists>x. map_of (fees s) ?k = Some (Num x) \<and> x \<noteq> NaN"
    then obtain x where x: "map_of (fees s) ?k = Some (Num x)" and xn: "x \<noteq> NaN" by blast
    have g: "fees_get (fees s) ?k = Has (Num x)" using x by (simp add: fees_get_def)
    show ?thesis
    proof (cases "truthy_num x")
      case True
      then show ?thesis
        using x by (simp add: fill_step_def Let_def g st map_of_fees_put js_plus_def)
    next
      case False
      with xn obtain z where xz: "x = Fin 0 z" by (cases x) auto
      have "js_add x ?c = ?c" unfolding xz cf by (rule js_add_zero_left [OF d])
      with False show ?thesis
        using x by (simp add: fill_step_def Let_def g st map_of_fees_put)
    qed
  qed
qed

lemma fold_fills:
  assumes "\<forall>t \<in> set ts. finite_double (ToNumber (trade_commission t))
                        \<and> \<not> Object_prototype_has (trade_commissionAsset t)"
  shows "(price (foldl fill_step fill_init ts), amount (foldl fill_step fill_init ts))
           = spec_weighted_average (map fill_price_qty ts)
       \<and> (\<forall>k. map_of (fees (foldl fill_step fill_init ts)) k
                 = map_option Num (spec_fee_sum (map fill_fee ts) k))
       \<and> (\<forall>k. spec_fee_sum (map fill_fee ts) k \<noteq> Some NaN)"
  using assms
proof (induction ts rule: rev_induct)
  case Nil
  show ?case
    by (simp add: fill_init_def spec_weighted_average_def spec_fee_sum_def)
next
  case (snoc t ts)
  let ?s = "foldl fill_step fill_init ts"
  let ?k = "trade_commissionAsset t"
  let ?c = "ToNumber (trade_commission t)"
  from snoc.prems have c: "finite_double ?c" and nk: "\<not> Object_prototype_has ?k"
    and r: "\<forall>t \<in> set ts. finite_double (ToNumber (trade_commission t))
                          \<and> \<not> Object_prototype_has (trade_commissionAsset t)" by simp_all
  from snoc.IH [OF r] have
    pa: "(price ?s, amount ?s) = spec_weighted_average (map fill_price_qty ts)"
    and fe: "\<forall>k. map_of (fees ?s) k = map_option Num (spec_fee_sum (map fill_fee ts) k)"
    and nn: "\<forall>k. spec_fee_sum (map fill_fee ts) k \<noteq> Some NaN" by blast+
  from c obtain b f where cf: "?c = Fin b f"
    by (auto simp: finite_double_def split: jsnum.splits)
  have own: "map_of (fees ?s) ?k = None
             \<or> (\<exists>x. map_of (fees ?s) ?k = Some (Num x) \<and> x \<noteq> NaN)"
    using fe nn by (cases "spec_fee_sum (map fill_fee ts) ?k") auto
  have 1: "(price (fill_step ?s t), amount (fill_step ?s t))
             = spec_weighted_average (map fill_price_qty (ts @ [t]))"
    by (simp only: fill_step_price_amount pa map_append list.map spec_avg_snoc)
  have 2: "map_of (fees (fill_step ?s t)) k
             = map_option Num (spec_fee_sum (map fill_fee (ts @ [t])) k)" for k
    unfolding fill_step_fees [OF c nk own]
    using fe by (simp add: fill_fee_def [of t] spec_fee_sum_snoc split: option.splits)
  have 3: "spec_fee_sum (map fill_fee (ts @ [t])) k \<noteq> Some NaN" for k
  proof -
    have "js_add x (Fin b f) \<noteq> NaN" if "spec_fee_sum (map fill_fee ts) k = Some x" for x
      using that nn js_add_not_NaN [of x b f] by metis
    then show ?thesis
      using nn by (simp add: fill_fee_def [of t] spec_fee_sum_snoc cf split: option.splits)
  qed
  from 1 2 3 show ?case by simp
qed

lemma get_completes:
  assumes "\<not> err_truthy err" "fills_of order data \<noteq> []"
  shows "get this_asset this_currency order err data =
           Inr (Completed (foldl fill_step fill_init (fills_of order data),
                           feePercent_of this_asset this_currency
                             (foldl fill_step fill_init (fills_of order data))))"
  using assms by (simp add: get_def fills_of_def fill_init_def Let_def)

lemma get_no_fills:
  assumes "\<not> err_truthy err" "fills_of order data = []"
  shows "get this_asset this_currency order err data
           = Inr (Failed (new_Error Error ''Trades not found''))"
  using assms by (simp add: get_def fills_of_def)

section \<open>Properties of the aggregation of fills\<close>

lemma scenario_get:
  "get ''BTC'' ''USDT'' (Num (fl_q 42 1)) (Prim Undefined) scenario_fills
     = Inr (Completed (\<lparr>price = fl_q 101 1, amount = fl_q 2 1, date = Num (fl_q 2000 1),
                         fees = [(''X'', Num (fl_q 2 10))]\<rparr>, fl_q 1 10))"
  by code_simp

lemma scenario_fills_nonempty: "fills_of (Num (fl_q 42 1)) scenario_fills \<noteq> []"
  by code_simp

lemma scenario_fills_finite:
  "\<forall>t \<in> set (fills_of (Num (fl_q 42 1)) scenario_fills).
     finite_double (ToNumber (trade_commission t))
     \<and> \<not> Object_prototype_has (trade_commissionAsset t)"
  by code_simp

lemma scenario_spec:
  "spec_weighted_average (map fill_price_qty (fills_of (Num (fl_q 42 1)) scenario_fills))
     = (fl_q 101 1, fl_q 2 1)
   \<and> spec_fee_sum (map fill_fee (fills_of (Num (fl_q 42 1)) scenario_fills)) ''X'' = Some (fl_q 2 10)"
  by code_simp

lemma scenario_nan_get:
  "get ''BTC'' ''USDT'' (Num (fl_q 42 1)) (Prim Undefined) scenario_nan_fills
     = Inr (Completed (\<lparr>price = fl_q 101 1, amount = fl_q 2 1, date = Num (fl_q 2000 1),
                         fees = [(''X'', Num (fl_q 1 10))]\<rparr>, fl_q 1 10))"
  by code_simp

lemma scenario_nan_spec:
  "spec_fee_sum (map fill_fee (fills_of (Num (fl_q 42 1)) scenario_nan_fills)) ''X'' = Some NaN"
  by code_simp

lemma scenario_inherited_get:
  "get ''BTC'' ''USDT'' (Num (fl_q 42 1)) (Prim Undefined) scenario_inherited_fills
     = Inr (Completed (\<lparr>price = fl_q 100 1, amount = fl_q 1 1, date = Num (fl_q 1000 1),
                         fees = [(''constructor'',
                                  Str ''function Object() { [native code] }0.1'')]\<rparr>,
                       fl_q 1 10))"
  by code_simp

lemma scenario_inherited_spec:
  "spec_fee_sum (map fill_fee (fills_of (Num (fl_q 42 1)) scenario_inherited_fills))
     ''constructor'' = Some (fl_q 1 10)"
  by code_simp

text \<open>
  Claim C5 fails on the code in two cases. A commission that is no number: the code tests
  the running total for truth, so after a commission \<^verbatim>\<open>'abc'\<close> (the total is \<^verbatim>\<open>NaN\<close>) the next
  commission \<open>0.1\<close> starts the total again at \<open>0.1\<close>, where the sum is \<^verbatim>\<open>NaN\<close>. A fee currency
  with the name of a property of every object: \<open>fees['constructor']\<close> reads a function, and
  \<open>+=\<close> stores the text of the function followed by \<open>0.1\<close>, no sum.
\<close>

theorem getOrder_fee_sum_counterexample:
  "get ''BTC'' ''USDT'' (Num (fl_q 42 1)) (Prim Undefined) scenario_nan_fills
     = Inr (Completed (\<lparr>price = fl_q 101 1, amount = fl_q 2 1, date = Num (fl_q 2000 1),
                         fees = [(''X'', Num (fl_q 1 10))]\<rparr>, fl_q 1 10))
   \<and> spec_fee_sum (map fill_fee (fills_of (Num (fl_q 42 1)) scenario_nan_fills)) ''X'' = Some NaN
   \<and> get ''BTC'' ''USDT'' (Num (fl_q 42 1)) (Prim Undefined) scenario_inherited_fills
     = Inr (Completed (\<lparr>price = fl_q 100 1, amount = fl_q 1 1, date = Num (fl_q 1000 1),
                         fees = [(''constructor'',
                                  Str ''function Object() { [native code] }0.1'')]\<rparr>,
                       fl_q 1 10))
   \<and> spec_fee_sum (map fill_fee (fills_of (Num (fl_q 42 1)) scenario_inherited_fills))
       ''constructor'' = Some (fl_q 1 10)"
  using scenario_nan_get scenario_nan_spec scenario_inherited_get scenario_inherited_spec
  by blast

text \<open>
  Claim C5, as the code has it. Once the fills of the order are selected (and there is
  one), with commissions that are finite numbers and fee currencies that are no names of
  properties of \<^verbatim>\<open>Object.prototype\<close>, \<^verbatim>\<open>getOrder\<close> completes with the price and the amount of
  the incremental weighted average over them, and the own properties of \<open>fees\<close> are, for
  every fee currency, the sum of the commissions paid in it. On the fills
  \<open>{price: 100, qty: 1, commission: 0.1}\<close> and \<open>{price: 102, qty: 1, commission: 0.1}\<close> in
  the currency \<open>X\<close> it yields the amount \<open>2\<close>, the price \<open>101\<close> and the fees \<open>{X: 0.2}\<close>.
\<close>

theorem getOrder_aggregates_fills:
  assumes "\<not> err_truthy err" and "fills_of order data \<noteq> []"
    and "\<forall>t \<in> set (fills_of order data).
           finite_double (ToNumber (trade_commission t))
           \<and> \<not> Object_prototype_has (trade_commissionAsset t)"
  shows "(\<exists>s p. get this_asset this_currency order err data = Inr (Completed (s, p))
          \<and> (price s, amount s)
               = spec_weighted_average (map fill_price_qty (fills_of order data))
          \<and> (\<forall>k. map_of (fees s) k
                     = map_option Num (spec_fee_sum (map fill_fee (fills_of order data)) k)))
       \<and> get ''BTC'' ''USDT'' (Num (fl_q 42 1)) (Prim Undefined) scenario_fills
           = Inr (Completed (\<lparr>price = fl_q 101 1, amount = fl_q 2 1, date = Num (fl_q 2000 1),
                               fees = [(''X'', Num (fl_q 2 10))]\<rparr>, fl_q 1 10))"
  using get_completes [OF assms(1,2)] fold_fills [OF assms(3)] scenario_get by blast

theorem getOrder_aggregates_fills_witness:
  "\<not> err_truthy (Prim Undefined)
   \<and> fills_of (Num (fl_q 42 1)) scenario_fills \<noteq> []
   \<and> list_all (\<lambda>t. finite_double (ToNumber (trade_commission t))
                      \<and> \<not> Object_prototype_has (trade_commissionAsset t))
         (fills_of (Num (fl_q 42 1)) scenario_fills)
   \<and> (\<exists>s p. get ''BTC'' ''USDT'' (Num (fl_q 42 1)) (Prim Undefined) scenario_fills
                = Inr (Completed (s, p))
          \<and> (price s, amount s) = (fl_q 101 1, fl_q 2 1)
          \<and> map_of (fees s) ''X'' = Some (Num (fl_q 2 10)))"
proof -
  have h: "\<not> err_truthy (Prim Undefined)" by simp
  have la: "list_all (\<lambda>t. finite_double (ToNumber (trade_commission t))
                           \<and> \<not> Object_prototype_has (trade_commissionAsset t))
              (fills_of (Num (fl_q 42 1)) scenario_fills)"
    using scenario_fills_finite by (simp only: list_all_iff)
  from getOrder_aggregates_fills [OF h scenario_fills_nonempty scenario_fills_finite,
         of "''BTC''" "''USDT''"]
  obtain s p where
    g: "get ''BTC'' ''USDT'' (Num (fl_q 42 1)) (Prim Undefined) scenario_fills
          = Inr (Completed (s, p))"
    and pa: "(price s, amount s)
       = spec_weighted_average (map fill_price_qty (fills_of (Num (fl_q 42 1)) scenario_fills))"
    and fx: "map_of (fees s) ''X''
       = map_option Num
           (spec_fee_sum (map fill_fee (fills_of (Num (fl_q 42 1)) scenario_fills)) ''X'')"
    by blast
  from scenario_spec have
    sa: "spec_weighted_average (map fill_price_qty (fills_of (Num (fl_q 42 1)) scenario_fills))
           = (fl_q 101 1, fl_q 2 1)"
    and sx: "spec_fee_sum (map fill_fee (fills_of (Num (fl_q 42 1)) scenario_fills)) ''X''
           = Some (fl_q 2 10)" by blast+
  have fx': "map_of (fees s) ''X'' = Some (Num (fl_q 2 10))"
    unfolding fx sx by (simp only: option.map)
  have pa': "(price s, amount s) = (fl_q 101 1, fl_q 2 1)" unfolding pa sa ..
  from h scenario_fills_nonempty la g pa' fx' show ?thesis by blast
qed

section \<open>Properties of Math.floor\<close>

lemma js_le_real:
  "js_le (Fin a e) (Fin b f) \<longleftrightarrow> real_of_int a * 2 powi e \<le> real_of_int b * 2 powi f"
proof -
  let ?g = "min e f"
  have p: "0 < (2::real) powi ?g" by simp
  have a: "real_of_int (a * 2 ^ nat (e - ?g)) * 2 powi ?g = real_of_int a * 2 powi e"
  proof -
    have "real_of_int (a * 2 ^ nat (e - ?g)) * 2 powi ?g
            = real_of_int a * ((2::real) ^ nat (e - ?g) * 2 powi ?g)" by simp
    also have "(2::real) ^ nat (e - ?g) = 2 powi (e - ?g)" by (simp add: powi_nonneg)
    also have "real_of_int a * (2 powi (e - ?g) * 2 powi ?g) = real_of_int a * 2 powi (e - ?g + ?g)"
      by (simp only: powi2_add)
    finally show ?thesis by simp
  qed
  have b: "real_of_int (b * 2 ^ nat (f - ?g)) * 2 powi ?g = real_of_int b * 2 powi f"
  proof -
    have "real_of_int (b * 2 ^ nat (f - ?g)) * 2 powi ?g
            = real_of_int b * ((2::real) ^ nat (f - ?g) * 2 powi ?g)" by simp
    also have "(2::real) ^ nat (f - ?g) = 2 powi (f - ?g)" by (simp add: powi_nonneg)
    also have "real_of_int b * (2 powi (f - ?g) * 2 powi ?g) = real_of_int b * 2 powi (f - ?g + ?g)"
      by (simp only: powi2_add)
    finally show ?thesis by simp
  qed
  have "js_le (Fin a e) (Fin b f) \<longleftrightarrow> a * 2 ^ nat (e - ?g) \<le> b * 2 ^ nat (f - ?g)"
    by (simp add: Let_def)
  also have "\<dots> \<longleftrightarrow> real_of_int (a * 2 ^ nat (e - ?g)) \<le> real_of_int (b * 2 ^ nat (f - ?g))"
    by (simp only: of_int_le_iff)
  also have "\<dots> \<longleftrightarrow> real_of_int (a * 2 ^ nat (e - ?g)) * 2 powi ?g
                        \<le> real_of_int (b * 2 ^ nat (f - ?g)) * 2 powi ?g"
    using p by (simp only: mult_le_cancel_right_pos)
  finally show ?thesis by (simp only: a b)
qed

text \<open>An integer below \<open>2 ^ 53\<close> in size is a number of the format.\<close>

lemma int_is_double:
  assumes "\<bar>i\<bar> < 9007199254740992"
  shows "\<exists>m e. fl_q i 1 = Fin m e \<and> real_of_int m * 2 powi e = real_of_int i"
proof (cases "i = 0")
  case True
  then show ?thesis by (simp add: fl_q_def)
next
  case False
  then have a: "0 < \<bar>i\<bar>" by simp
  define b where "b = bitlen \<bar>i\<bar>"
  from bitlen_real_bounds [OF a] have lo: "2 powi (b - 1) \<le> real_of_int \<bar>i\<bar>"
    and up: "real_of_int \<bar>i\<bar> < 2 powi b" by (simp_all add: b_def)
  have "(2::real) powi (b - 1) < 2 powi 53" using lo assms by simp
  then have b53: "b \<le> 53" using powi2_less_cancel [of "b - 1" 53] by simp
  define e where "e = b - 53"
  define m where "m = i * 2 ^ nat (- e)"
  have e0: "e \<le> 0" using b53 by (simp add: e_def)
  have b1: "1 \<le> b"
    using bitlen_eq_zero_iff [of "\<bar>i\<bar>"] bitlen_nonneg [of "\<bar>i\<bar>"] a by (simp add: b_def)
  have mr: "real_of_int m = real_of_int i * 2 powi (- e)"
    using e0 by (simp add: m_def powi_nonneg)
  have val: "real_of_int m * 2 powi e = real_of_int i"
  proof -
    have "real_of_int m * 2 powi e = real_of_int i * (2 powi (- e) * 2 powi e)"
      by (simp add: mr)
    also have "\<dots> = real_of_int i * 2 powi (- e + e)" by (simp only: powi2_add)
    finally show ?thesis by simp
  qed
  have am: "real_of_int \<bar>m\<bar> = real_of_int \<bar>i\<bar> * 2 powi (- e)"
    by (simp add: mr abs_mult)
  have "2 powi (b - 1) * 2 powi (- e) \<le> real_of_int \<bar>i\<bar> * 2 powi (- e)"
    using lo by (rule mult_right_mono) simp
  moreover have "(2::real) powi (b - 1) * 2 powi (- e) = 2 powi 52"
    using powi2_add [of "b - 1" "- e"] by (simp add: e_def)
  ultimately have "real_of_int 4503599627370496 \<le> real_of_int \<bar>m\<bar>" by (simp only: am) simp
  then have m_lo: "4503599627370496 \<le> \<bar>m\<bar>" by (simp only: of_int_le_iff)
  have "real_of_int \<bar>i\<bar> * 2 powi (- e) < 2 powi b * 2 powi (- e)"
    using up by (rule mult_strict_right_mono) simp
  moreover have "(2::real) powi b * 2 powi (- e) = 2 powi 53"
    using powi2_add [of b "- e"] by (simp add: e_def)
  ultimately have "real_of_int \<bar>m\<bar> < real_of_int 9007199254740992" by (simp only: am) simp
  then have m_up: "\<bar>m\<bar> < 9007199254740992" by (simp only: of_int_less_iff)
  have d: "is_double m e"
    using m_lo m_up b1 e0 by (simp add: is_double_def e_def)
  have "fl_q i 1 = Fin m e"
    by (rule fl_q_exact [OF d]) (simp_all add: val)
  with val show ?thesis by blast
qed

lemma real_of_div_le:
  assumes "0 < (d::int)"
  shows "real_of_int (m div d) \<le> real_of_int m / real_of_int d"
proof -
  have "real_of_int (m div d) = real_of_int \<lfloor>real_of_int m / real_of_int d\<rfloor>"
    by (simp add: floor_divide_of_int_eq)
  also have "\<dots> \<le> real_of_int m / real_of_int d" by (rule of_int_floor_le)
  finally show ?thesis .
qed

lemma abs_div_le:
  assumes "0 < (d::int)"
  shows "\<bar>m div d\<bar> \<le> \<bar>m\<bar>"
proof (cases "0 \<le> m")
  case True
  then have "0 \<le> m div d" using assms by (simp add: pos_imp_zdiv_nonneg_iff)
  moreover have "m div d \<le> m" using zdiv_mono2 [of m 1 d] True assms by simp
  ultimately show ?thesis using True by simp
next
  case False
  then have "m div d < 0" using assms by (simp add: pos_imp_zdiv_neg_iff)
  moreover have "m \<le> m div d"
  proof -
    have "m * d \<le> m * 1" using False assms by (intro mult_left_mono_neg) simp_all
    then have "m * d \<le> m" by simp
    then show ?thesis using assms by (intro div_ge_of_mult_le) simp_all
  qed
  ultimately show ?thesis using False by simp
qed

lemma Math_floor_le:
  assumes "is_double m e"
  shows "js_le (Math_floor (Fin m e)) (Fin m e)"
proof (cases "0 \<le> e")
  case True
  then show ?thesis by (simp add: Let_def)
next
  case False
  let ?d = "(2::int) ^ nat (- e)"
  let ?f = "m div ?d"
  have dpos: "0 < ?d" by simp
  have "\<bar>?f\<bar> \<le> \<bar>m\<bar>" by (rule abs_div_le [OF dpos])
  with assms have "\<bar>?f\<bar> < 9007199254740992" by (simp add: is_double_def)
  from int_is_double [OF this] obtain m' e' where
    f: "fl_q ?f 1 = Fin m' e'" and v: "real_of_int m' * 2 powi e' = real_of_int ?f" by blast
  have "real_of_int ?f \<le> real_of_int m / real_of_int ?d" by (rule real_of_div_le [OF dpos])
  also have "\<dots> = real_of_int m * 2 powi e"
    using False by (simp add: powi_neg)
  finally have le: "real_of_int m' * 2 powi e' \<le> real_of_int m * 2 powi e" by (simp only: v)
  have mf: "Math_floor (Fin m e) = Fin m' e'" using False by (simp add: f)
  show ?thesis unfolding mf js_le_real by (rule le)
qed

section \<open>Properties of the strings of numbers\<close>

lemma digit_char_is_digit: "d < 10 \<Longrightarrow> is_digit (digit_char d)"
proof -
  assume "d < 10"
  then have "nat d < length ''0123456789''" by simp
  then have "''0123456789'' ! nat d \<in> set ''0123456789''" by (rule nth_mem)
  then show ?thesis by (simp only: is_digit_def digit_char_def)
qed

lemma dec_string_digits: "c \<in> set (dec_string n) \<Longrightarrow> is_digit c"
proof (induction n arbitrary: c rule: dec_string.induct)
  case (1 n)
  show ?case
  proof (cases "n < 10")
    case True
    with "1.prems" show ?thesis
      by (subst (asm) dec_string.simps) (simp add: digit_char_is_digit)
  next
    case False
    have "n mod 10 < 10" by simp
    then have d: "is_digit (digit_char (n mod 10))" by (rule digit_char_is_digit)
    from "1.prems" False have "c \<in> set (dec_string (n div 10)) \<or> c = digit_char (n mod 10)"
      by (subst (asm) dec_string.simps) auto
    then show ?thesis using "1.IH" [OF False] d by blast
  qed
qed

lemma dec_string_nonempty: "dec_string n \<noteq> []"
  by (subst dec_string.simps) simp

lemma not_digit_e: "\<not> is_digit CHR ''e''" "\<not> is_digit CHR ''E''" "\<not> is_digit CHR ''.''"
  "\<not> is_digit CHR ''+''" "\<not> is_digit CHR ''-''"
  by (simp_all add: is_digit_def)












lemma js_mul_is_double: "js_mul u v = Fin m e \<Longrightarrow> is_double m e"
proof (cases u; cases v)
  fix a b c d
  assume "js_mul u v = Fin m e" "u = Fin a b" "v = Fin c d"
  then have "fl_q (a * c * 2 ^ nat (b + d)) (2 ^ nat (- (b + d))) = Fin m e"
    by (simp add: fl_de_def)
  then show ?thesis by (rule fl_q_is_double [rotated]) simp
qed (auto split: if_splits)

lemma Math_floor_le_any:
  assumes "x \<noteq> NaN" "\<And>m e. x = Fin m e \<Longrightarrow> is_double m e"
  shows "js_le (Math_floor x) x"
proof (cases x)
  case (Fin m e)
  with assms(2) have "is_double m e" by blast
  from Math_floor_le [OF this] show ?thesis by (simp only: Fin)
qed (use assms(1) in simp_all)


lemma gp_scenario_product:
  "js_mul (fl_q 1234 (10 ^ 10)) (Math_pow10 7) = StringToNumber ''1.234''"
  by code_simp

lemma gp_scenario_floor:
  "scaled_floor (Num (fl_q 1234 (10 ^ 10))) 7 = fl_q 1 1"
  by code_simp

section \<open>Properties of integers as numbers\<close>

lemma int_double:
  assumes "\<bar>i\<bar> < 9007199254740992"
  shows "\<exists>m e. fl_q i 1 = Fin m e \<and> real_of_int m * 2 powi e = real_of_int i \<and> is_double m e"
proof -
  from int_is_double [OF assms] obtain m e where
    f: "fl_q i 1 = Fin m e" and v: "real_of_int m * 2 powi e = real_of_int i" by blast
  have "is_double m e" by (rule fl_q_is_double [OF _ f]) simp
  with f v show ?thesis by blast
qed

lemma fl_q_int_inj:
  assumes "\<bar>i\<bar> < 9007199254740992" "\<bar>j\<bar> < 9007199254740992" "fl_q i 1 = fl_q j 1"
  shows "i = j"
proof -
  from int_is_double [OF assms(1)] obtain m e where
    "fl_q i 1 = Fin m e" "real_of_int m * 2 powi e = real_of_int i" by blast
  moreover from int_is_double [OF assms(2)] obtain m' e' where
    "fl_q j 1 = Fin m' e'" "real_of_int m' * 2 powi e' = real_of_int j" by blast
  ultimately have "real_of_int i = real_of_int j" using assms(3) by simp
  then show ?thesis by simp
qed

lemma js_mul_one:
  assumes "is_double m e"
  shows "js_mul (Fin m e) (Math_pow10 0) = Fin m e"
proof -
  have "real_of_int (m * 4503599627370496) * 2 powi (e - 52) = real_of_int m * 2 powi e"
  proof -
    have "real_of_int (m * 4503599627370496) * 2 powi (e - 52)
            = real_of_int m * (2 powi 52 * 2 powi (e - 52))" by simp
    also have "\<dots> = real_of_int m * 2 powi (52 + (e - 52))" by (simp only: powi2_add)
    finally show ?thesis by simp
  qed
  from fl_de_exact [OF assms this] show ?thesis
    by (simp add: Math_pow10_def one_eval)
qed

lemma js_div_one:
  assumes "is_double m e"
  shows "js_div (Fin m e) (Math_pow10 0) = Fin m e"
proof -
  let ?n = "m * 2 ^ nat (e + 52)"
  let ?d = "4503599627370496 * (2::int) ^ nat (- 52 - e)"
  have d: "0 < ?d" by simp
  have "real_of_int ?n / real_of_int ?d = real_of_int m * 2 powi e"
  proof -
    have ne: "- 52 - e = - (e + 52)" by simp
    have "real_of_int ?n / real_of_int ?d
            = real_of_int m * (real_of_int (2 ^ nat (e + 52)) / real_of_int (2 ^ nat (- (e + 52))))
                / 2 powi 52"
      unfolding ne by simp
    also have "\<dots> = real_of_int m * 2 powi (e + 52) / 2 powi 52" by (simp only: pow2_quot)
    also have "\<dots> = real_of_int m * (2 powi e * 2 powi 52) / 2 powi 52" by (simp only: powi2_add)
    finally show ?thesis by simp
  qed
  from fl_q_exact [OF assms d this] show ?thesis
    by (simp add: Math_pow10_def one_eval)
qed

lemma Math_floor_floor_int:
  assumes "is_double m e"
  shows "Math_floor (Fin m e) = fl_q (floor_int m e) 1"
proof (cases "0 \<le> e")
  case True
  have "fl_q (m * 2 ^ nat e) 1 = Fin m e"
    by (rule fl_q_exact [OF assms]) (use True in \<open>simp_all add: powi_nonneg\<close>)
  with True show ?thesis by (simp add: floor_int_def)
next
  case False
  then show ?thesis by (simp add: floor_int_def)
qed

lemma Math_floor_int:
  assumes "\<bar>i\<bar> < 9007199254740992"
  shows "Math_floor (fl_q i 1) = fl_q i 1"
proof -
  from int_double [OF assms] obtain m e where
    f: "fl_q i 1 = Fin m e" and v: "real_of_int m * 2 powi e = real_of_int i"
    and d: "is_double m e" by blast
  show ?thesis
  proof (cases "0 \<le> e")
    case True
    then show ?thesis by (simp add: f)
  next
    case False
    have "real_of_int m = real_of_int (i * 2 ^ nat (- e))"
    proof -
      have "real_of_int m = real_of_int m * (2 powi e * 2 powi (- e))"
        using powi2_add [of e "- e"] by simp
      also have "\<dots> = real_of_int i * 2 powi (- e)" using v by (simp add: mult.assoc [symmetric])
      also have "\<dots> = real_of_int (i * 2 ^ nat (- e))" using False by (simp add: powi_nonneg)
      finally show ?thesis .
    qed
    then have "m = i * 2 ^ nat (- e)" by (simp only: of_int_eq_iff)
    then have "m div 2 ^ nat (- e) = i" by simp
    with False show ?thesis by (simp add: f)
  qed
qed

section \<open>Properties of the strings of integers\<close>

lemma int_double_int:
  assumes "\<bar>i\<bar> < 9007199254740992"
  shows "\<exists>m e. fl_q i 1 = Fin m e \<and> m * 2 ^ nat e = i * 2 ^ nat (- e) \<and> is_double m e"
proof -
  from int_double [OF assms] obtain m e where
    f: "fl_q i 1 = Fin m e" and v: "real_of_int m * 2 powi e = real_of_int i"
    and d: "is_double m e" by blast
  have "m * 2 ^ nat e = i * 2 ^ nat (- e)"
  proof (cases "0 \<le> e")
    case True
    have "real_of_int (m * 2 ^ nat e) = real_of_int i"
      using v True by (simp add: powi_nonneg)
    then have "m * 2 ^ nat e = i" by (simp only: of_int_eq_iff)
    with True show ?thesis by simp
  next
    case False
    have "real_of_int m = real_of_int (i * 2 ^ nat (- e))"
    proof -
      have "real_of_int m = real_of_int m * (2 powi e * 2 powi (- e))"
        using powi2_add [of e "- e"] by simp
      also have "\<dots> = real_of_int i * 2 powi (- e)" using v by (simp add: mult.assoc [symmetric])
      also have "\<dots> = real_of_int (i * 2 ^ nat (- e))" using False by (simp add: powi_nonneg)
      finally show ?thesis .
    qed
    then have "m = i * 2 ^ nat (- e)" by (simp only: of_int_eq_iff)
    with False show ?thesis by simp
  qed
  with f d show ?thesis by blast
qed

lemma int_digits_spec:
  assumes "0 < D" "D \<le> N"
  shows "1 \<le> int_digits N D \<and> D * 10 ^ nat (int_digits N D - 1) \<le> N
         \<and> N < D * 10 ^ nat (int_digits N D)"
  using assms
proof (induction N D rule: int_digits.induct)
  case (1 N D)
  show ?case
  proof (cases "D * 10 \<le> N")
    case True
    let ?n = "int_digits N (D * 10)"
    have u: "int_digits N D = 1 + ?n"
      using True "1.prems" by (subst int_digits.simps) simp
    have c: "0 < D \<and> D * 10 \<le> N" using True "1.prems" by simp
    have p: "0 < D * 10" using "1.prems" by simp
    from "1.IH" [OF c p True] have ih: "1 \<le> ?n" "D * 10 * 10 ^ nat (?n - 1) \<le> N"
      "N < D * 10 * 10 ^ nat ?n" by simp_all
    have a: "nat (1 + ?n - 1) = Suc (nat (?n - 1))" using ih(1) by simp
    have b: "nat (1 + ?n) = Suc (nat ?n)" using ih(1) by simp
    show ?thesis
      unfolding u a b using ih by (simp add: mult.assoc)
  next
    case False
    have u: "int_digits N D = 1"
      using False by (subst int_digits.simps) simp
    show ?thesis unfolding u using False "1.prems" by simp
  qed
qed

lemma digit_char_zero: "digit_char 0 = CHR ''0''"
  by (simp add: digit_char_def)

lemma dec_string_small: "n < 10 \<Longrightarrow> dec_string n = [digit_char n]"
  by (subst dec_string.simps) simp

lemma dec_string_large:
  "10 \<le> n \<Longrightarrow> dec_string n = dec_string (n div 10) @ [digit_char (n mod 10)]"
  by (subst dec_string.simps) simp

lemma dec_string_length:
  "10 ^ k \<le> s \<Longrightarrow> s < 10 ^ Suc k \<Longrightarrow> length (dec_string s) = Suc k"
proof (induction k arbitrary: s)
  case 0
  then show ?case by (simp add: dec_string_small)
next
  case (Suc k)
  have "(10::int) ^ 1 \<le> 10 ^ Suc k" by (rule power_increasing) simp_all
  then have "(10::int) \<le> 10 ^ Suc k" by (simp only: power_one_right)
  from this Suc.prems(1) have l: "10 \<le> s" by (rule order_trans)
  have a: "10 ^ k \<le> s div 10" using Suc.prems by simp
  have b: "s div 10 < 10 ^ Suc k" using Suc.prems by simp
  show ?case using Suc.IH [OF a b] by (simp add: dec_string_large [OF l])
qed

lemma dec_string_shift:
  "0 < s \<Longrightarrow> dec_string (s * 10 ^ j) = dec_string s @ replicate j CHR ''0''"
proof (induction j)
  case 0
  then show ?case by simp
next
  case (Suc j)
  let ?x = "s * 10 ^ j"
  have x: "0 < ?x" using Suc.prems by simp
  then have l: "10 \<le> ?x * 10" by simp
  have e: "s * 10 ^ Suc j = ?x * 10" by simp
  have "dec_string (?x * 10) = dec_string ?x @ [CHR ''0'']"
    using dec_string_large [OF l] by (simp add: digit_char_zero)
  then show ?case
    unfolding e using Suc.IH [OF Suc.prems] by (simp add: replicate_append_same)
qed

lemma digit_val_digit_char_all: "\<forall>d \<in> set [0..9]. digit_val (digit_char d) = d"
  by code_simp

lemma digit_val_digit_char: "0 \<le> d \<Longrightarrow> d < 10 \<Longrightarrow> digit_val (digit_char d) = d"
proof -
  assume "0 \<le> d" "d < 10"
  then have "d \<in> set [0..9]" by simp
  with digit_val_digit_char_all show ?thesis by blast
qed

lemma parse_digits_snoc: "parse_digits (ds @ [c]) = 10 * parse_digits ds + digit_val c"
  by (simp add: parse_digits_def)

lemma parse_digits_dec_string: "0 \<le> n \<Longrightarrow> parse_digits (dec_string n) = n"
proof (induction n rule: dec_string.induct)
  case (1 n)
  show ?case
  proof (cases "n < 10")
    case True
    then show ?thesis
      using "1.prems" by (simp add: dec_string_small parse_digits_def digit_val_digit_char)
  next
    case False
    then have l: "10 \<le> n" by simp
    have d: "0 \<le> n div 10" using "1.prems" by simp
    have m: "digit_val (digit_char (n mod 10)) = n mod 10"
      by (rule digit_val_digit_char) simp_all
    show ?thesis
      using "1.IH" [OF False d] by (simp add: dec_string_large [OF l] parse_digits_snoc m)
  qed
qed

lemma not_digit_others:
  "\<not> is_digit CHR ''x''" "\<not> is_digit CHR ''X''" "\<not> is_digit CHR ''o''" "\<not> is_digit CHR ''O''"
  "\<not> is_digit CHR ''b''" "\<not> is_digit CHR ''B''" "\<not> is_digit CHR ''I''"
  by (simp_all add: is_digit_def)

lemma digit_not_space: "is_digit c \<Longrightarrow> \<not> is_space c"
  by (auto simp: is_digit_def is_space_def)

lemma trim_digits:
  assumes "s \<noteq> []" "\<forall>c \<in> set s. is_digit c"
  shows "trim s = s"
proof -
  have n: "\<forall>c \<in> set s. \<not> is_space c" using assms(2) digit_not_space by blast
  have a: "dropWhile is_space s = s" using assms(1) n by (cases s) simp_all
  have r: "rev s \<noteq> []" using assms(1) by simp
  have "\<forall>c \<in> set (rev s). \<not> is_space c" using n by simp
  then have b: "dropWhile is_space (rev s) = rev s" using r by (cases "rev s") simp_all
  show ?thesis by (simp add: trim_def a b)
qed

lemma parse_non_decimal_digits:
  assumes "\<forall>c \<in> set s. is_digit c"
  shows "parse_non_decimal s = None"
proof -
  have sub: "set (take 2 s) \<subseteq> set s" by (rule set_take_subset)
  have k: "take 2 s \<noteq> [a, b]" if n: "\<not> is_digit b" for a b
  proof
    assume "take 2 s = [a, b]"
    then have "b \<in> set (take 2 s)" by (simp only: list.set_intros)
    with sub assms n show False by blast
  qed
  have "take 2 s \<noteq> ''0x''" "take 2 s \<noteq> ''0X''" "take 2 s \<noteq> ''0o''" "take 2 s \<noteq> ''0O''"
    "take 2 s \<noteq> ''0b''" "take 2 s \<noteq> ''0B''"
    by (rule k, rule not_digit_others)+
  then show ?thesis by (simp add: parse_non_decimal_def Let_def)
qed

lemma parse_unsigned_digits:
  assumes "s \<noteq> []" "\<forall>c \<in> set s. is_digit c"
  shows "parse_unsigned s = Some (fl_q (parse_digits s) 1, [])"
proof -
  have sub: "set (take 8 s) \<subseteq> set s" by (rule set_take_subset)
  have i: "take 8 s \<noteq> ''Infinity''"
  proof
    assume e: "take 8 s = ''Infinity''"
    have "CHR ''I'' \<in> set (take 8 s)" unfolding e by simp
    with sub assms(2) not_digit_others(7) show False by blast
  qed
  have t: "takeWhile is_digit s = s" using assms(2) by (simp add: takeWhile_eq_all_conv)
  have d: "dropWhile is_digit s = []" using assms(2) by simp
  show ?thesis
    unfolding parse_unsigned_def Let_def t d using i assms(1)
    by (simp add: parse_exponent_def)
qed

lemma StringToNumber_dec_string:
  assumes "0 \<le> n"
  shows "StringToNumber (dec_string n) = fl_q n 1"
proof -
  let ?s = "dec_string n"
  have ne: "?s \<noteq> []" by (rule dec_string_nonempty)
  have dg: "\<forall>c \<in> set ?s. is_digit c" using dec_string_digits by blast
  obtain c r where cr: "?s = c # r" using ne by (cases ?s) auto
  have "is_digit c" using dg cr by simp
  then have c: "c \<noteq> CHR ''-''" "c \<noteq> CHR ''+''" using not_digit_e by auto
  have ps: "parse_signed ?s = parse_unsigned ?s"
    unfolding parse_signed_def cr using c by simp
  have pu: "parse_unsigned ?s = Some (fl_q n 1, [])"
    using parse_unsigned_digits [OF ne dg] parse_digits_dec_string [OF assms] by simp
  show ?thesis
    unfolding StringToNumber_def Let_def trim_digits [OF ne dg]
      parse_non_decimal_digits [OF dg] ps pu
    using ne by simp
qed

lemma sci_regex_test_digits:
  "\<forall>c \<in> set s. is_digit c \<Longrightarrow> \<not> sci_regex_test s"
proof (induction s)
  case Nil
  then show ?case by simp
next
  case (Cons c cs)
  have d: "dropWhile is_digit (c # cs) = []" using Cons.prems by simp
  have "\<not> sci_match_at (c # cs)"
    unfolding sci_match_at_def Let_def d by simp
  then show ?case using Cons by simp
qed

lemma digit_candidate_Some:
  assumes "digit_candidate m e N D n k = Some s"
  shows "fl_q (s * 10 ^ nat (n - k)) (10 ^ nat (k - n)) = Fin m e
         \<and> (s = (N * 10 ^ nat (k - n)) div (D * 10 ^ nat (n - k))
            \<or> s = (N * 10 ^ nat (k - n)) div (D * 10 ^ nat (n - k)) + 1)"
proof -
  let ?A = "(10::int) ^ nat (k - n)"
  let ?B = "(10::int) ^ nat (n - k)"
  let ?lo = "(N * ?A) div (D * ?B)"
  have c: "(fl_q (?lo * ?B) ?A = Fin m e \<and> s = ?lo)
           \<or> (fl_q ((?lo + 1) * ?B) ?A = Fin m e \<and> s = ?lo + 1)"
    using assms unfolding digit_candidate_def Let_def
    by (auto split: if_splits)
  then show ?thesis by auto
qed

lemma digit_candidate_lo:
  assumes "fl_q ((N * 10 ^ nat (k - n)) div (D * 10 ^ nat (n - k)) * 10 ^ nat (n - k))
             (10 ^ nat (k - n)) = Fin m e"
  shows "digit_candidate m e N D n k \<noteq> None"
  unfolding digit_candidate_def Let_def using assms by simp

lemma shortest_digits_first:
  assumes "a \<le> k0" "k0 < b" "digit_candidate m e N D n (int k0) \<noteq> None"
  shows "\<exists>s k. shortest_digits m e N D n [a..<b] = Some (s, int k) \<and> a \<le> k \<and> k \<le> k0
               \<and> digit_candidate m e N D n (int k) = Some s"
  using assms
proof (induction "k0 - a" arbitrary: a)
  case 0
  then have a: "a = k0" by simp
  from "0.prems"(3) obtain s where s: "digit_candidate m e N D n (int k0) = Some s" by blast
  have u: "[a..<b] = a # [Suc a..<b]" using "0.prems" by (simp add: upt_conv_Cons)
  show ?case unfolding u using s a by simp
next
  case (Suc d)
  have u: "[a..<b] = a # [Suc a..<b]" using Suc.prems by (simp add: upt_conv_Cons)
  show ?case
  proof (cases "digit_candidate m e N D n (int a)")
    case (Some s)
    then show ?thesis unfolding u using Suc.prems by auto
  next
    case None
    have d: "d = k0 - Suc a" using Suc.hyps(2) by simp
    have l: "Suc a \<le> k0" using Suc.hyps(2) by simp
    from Suc.hyps(1) [OF d l Suc.prems(2) Suc.prems(3)] obtain s k where
      r: "shortest_digits m e N D n [Suc a..<b] = Some (s, int k)" "Suc a \<le> k" "k \<le> k0"
         "digit_candidate m e N D n (int k) = Some s" by blast
    have "shortest_digits m e N D n [a..<b] = Some (s, int k)"
      unfolding u using None r(1) by simp
    with r show ?thesis by (intro exI [of _ s] exI [of _ k]) simp
  qed
qed

lemma Number_digits_int:
  assumes pos: "0 < F" and lt: "F < 1000000000000000"
    and f: "fl_q F 1 = Fin m e" and v: "m * 2 ^ nat e = F * 2 ^ nat (- e)"
  shows "\<exists>s k j. Number_digits m e = (s, int (Suc k + j)) \<and> s * 10 ^ j = F
                 \<and> 10 ^ k \<le> s \<and> s < 10 ^ Suc k \<and> Suc k + j \<le> 15"
proof -
  let ?N = "m * 2 ^ nat e"
  let ?D = "(2::int) ^ nat (- e)"
  have D: "0 < ?D" by simp
  have N: "?N = ?D * F" using v by (simp add: mult.commute)
  have DN: "?D \<le> ?N" unfolding N using pos D by simp
  let ?n = "int_digits ?N ?D"
  have n: "dec_exponent ?N ?D = ?n" using DN by (simp add: dec_exponent_def)
  from int_digits_spec [OF D DN] have sp: "1 \<le> ?n" "?D * 10 ^ nat (?n - 1) \<le> ?D * F"
    "?D * F < ?D * 10 ^ nat ?n" unfolding N by simp_all
  define nn where "nn = nat ?n"
  have nn: "?n = int nn" "1 \<le> nn" using sp(1) by (simp_all add: nn_def)
  have n1: "nat (?n - 1) = nn - 1" by (simp add: nn_def)
  have lo: "10 ^ (nn - 1) \<le> F" using sp(2) D unfolding n1 by (simp only: mult_le_cancel_left_pos)
  have hi: "F < 10 ^ nn" using sp(3) D unfolding nn_def by (simp only: mult_less_cancel_left_pos)
  have "(10::int) ^ (nn - 1) < 10 ^ 15" using lo lt by simp
  then have "nn - 1 < 15" by (rule power_less_imp_less_exp [rotated]) simp
  then have n15: "nn \<le> 15" by simp
  have cn: "digit_candidate m e ?N ?D (int nn) (int nn) \<noteq> None"
  proof (rule digit_candidate_lo)
    have "?D * F div ?D = F" using D by simp
    then show "fl_q (?N * 10 ^ nat (int nn - int nn) div (?D * 10 ^ nat (int nn - int nn))
                 * 10 ^ nat (int nn - int nn)) (10 ^ nat (int nn - int nn)) = Fin m e"
      unfolding N using f by simp
  qed
  have b18: "nn < 18" using n15 by simp
  from shortest_digits_first [OF nn(2) b18 cn] obtain s k where
    sd: "shortest_digits m e ?N ?D (int nn) [1..<18] = Some (s, int k)"
    and k: "1 \<le> k" "k \<le> nn"
    and dc: "digit_candidate m e ?N ?D (int nn) (int k) = Some s" by blast
  define j where "j = nn - k"
  have e1: "nat (int nn - int k) = j" using k by (simp add: j_def)
  have e2: "nat (int k - int nn) = 0" using k by simp
  have q: "?N * 10 ^ 0 div (?D * 10 ^ j) = F div 10 ^ j"
    unfolding N using D by simp
  from digit_candidate_Some [OF dc] have
    fs: "fl_q (s * 10 ^ j) 1 = Fin m e"
    and sl: "s = F div 10 ^ j \<or> s = F div 10 ^ j + 1"
    unfolding e1 e2 q by simp_all
  have pj: "(0::int) < 10 ^ j" by simp
  have jl: "(10::int) ^ j \<le> 10 ^ (nn - 1)"
    by (rule power_increasing) (use k in \<open>simp_all add: j_def\<close>)
  have dl: "F div 10 ^ j * 10 ^ j \<le> F"
  proof -
    have "F div 10 ^ j * 10 ^ j + F mod 10 ^ j = F" by (rule div_mult_mod_eq)
    moreover have "0 \<le> F mod 10 ^ j" using pj by (simp only: pos_mod_sign)
    ultimately show ?thesis by linarith
  qed
  have dn: "0 \<le> F div 10 ^ j" using pos pj by (simp add: pos_imp_zdiv_nonneg_iff)
  have s0: "0 \<le> s" using sl dn by auto
  have su: "s * 10 ^ j \<le> F + 10 ^ j"
  proof -
    from sl consider "s * 10 ^ j = F div 10 ^ j * 10 ^ j"
      | "s * 10 ^ j = F div 10 ^ j * 10 ^ j + 10 ^ j" by (auto simp: algebra_simps)
    then show ?thesis using dl pj by cases linarith+
  qed
  have "s * 10 ^ j < 9007199254740992" using su jl lo lt by linarith
  moreover have "0 \<le> s * 10 ^ j" using s0 by simp
  ultimately have a1: "\<bar>s * 10 ^ j\<bar> < 9007199254740992" by simp
  have a2: "\<bar>F\<bar> < 9007199254740992" using pos lt by simp
  have sF: "s * 10 ^ j = F"
    by (rule fl_q_int_inj [OF a1 a2]) (simp only: fs f)
  have nk: "nn = k + j" using k by (simp add: j_def)
  have sk: "s < 10 ^ k"
  proof -
    have "s * 10 ^ j < 10 ^ k * 10 ^ j" using hi unfolding sF nk by (simp only: power_add)
    then show ?thesis using pj by (simp only: mult_less_cancel_right_pos)
  qed
  obtain k' where k': "k = Suc k'" using k(1) by (cases k) simp_all
  have sg: "10 ^ k' \<le> s"
  proof -
    have "nn - 1 = k' + j" using nk k' by simp
    then have "10 ^ k' * 10 ^ j \<le> s * 10 ^ j" using lo unfolding sF by (simp only: power_add)
    then show ?thesis using pj by (simp only: mult_le_cancel_right_pos)
  qed
  have ne: "s \<noteq> 10 ^ nat (int k)" using sk by simp
  have "Number_digits m e = (s, int nn)"
    unfolding Number_digits_def Let_def n nn(1) sd using ne by simp
  then have "Number_digits m e = (s, int (Suc k' + j))" using nk k' by simp
  moreover have "Suc k' + j \<le> 15" using n15 nk k' by simp
  ultimately show ?thesis using sF sg sk unfolding k' by blast
qed

lemma Number_toString_int:
  assumes "0 \<le> F" "F < 1000000000000000"
  shows "Number_toString (fl_q F 1) = dec_string F"
proof (cases "F = 0")
  case True
  have "dec_string 0 = ''0''" by (simp add: dec_string_small digit_char_zero)
  then show ?thesis unfolding True by (simp add: fl_q_def)
next
  case False
  with assms have pos: "0 < F" by simp
  have "\<bar>F\<bar> < 9007199254740992" using assms by simp
  from int_double_int [OF this] obtain m e where
    f: "fl_q F 1 = Fin m e" and v: "m * 2 ^ nat e = F * 2 ^ nat (- e)" by blast
  have "0 < F * 2 ^ nat (- e)" using pos by simp
  then have "0 < m * 2 ^ nat e" unfolding v .
  then have m: "0 < m" by (simp add: zero_less_mult_iff)
  from Number_digits_int [OF pos assms(2) f v] obtain s k j where
    nd: "Number_digits m e = (s, int (Suc k + j))" and sF: "s * 10 ^ j = F"
    and sg: "10 ^ k \<le> s" and sk: "s < 10 ^ Suc k" and le: "Suc k + j \<le> 15" by blast
  have len: "length (dec_string s) = Suc k" by (rule dec_string_length [OF sg sk])
  have "(0::int) < 10 ^ k" by simp
  with sg have sp: "0 < s" by linarith
  have "Number_toString_pos m e = dec_string s @ replicate j CHR ''0''"
    unfolding Number_toString_pos_def nd Let_def prod.case len using le by simp
  also have "\<dots> = dec_string F" using dec_string_shift [OF sp, of j] sF by simp
  finally show ?thesis unfolding f using m by simp
qed

lemma floor_int_nonneg: "0 \<le> m \<Longrightarrow> 0 \<le> floor_int m e"
  by (simp add: floor_int_def pos_imp_zdiv_nonneg_iff)

lemma round_tick_integer:
  assumes gp: "getPrecision tick = Some 0" and F: "0 \<le> F" "F < 1000000000000000"
    and sf: "scaled_floor amt 0 = fl_q F 1"
  shows "round_tick amt tick = Some (Inr (dec_string F))"
proof -
  have "\<bar>F\<bar> < 9007199254740992" using F by simp
  from int_double [OF this] obtain m e where
    f: "fl_q F 1 = Fin m e" and d: "is_double m e" by blast
  have dg: "\<forall>c \<in> set (dec_string F). is_digit c" using dec_string_digits by blast
  have "scientificToDecimal (Fin m e) = Inr (dec_string F)"
    unfolding scientificToDecimal_def Let_def f [symmetric] Number_toString_int [OF F]
    using sci_regex_test_digits [OF dg] by simp
  then show ?thesis
    by (simp add: round_tick_def gp sf f js_div_one [OF d])
qed

text \<open>
  Claim C9, as the code has it. For a tick size of precision \<open>0\<close> (whole units) and an
  amount that is a number from \<open>0\<close> up with an integer part below \<open>10 ^ 15\<close>, \<^verbatim>\<open>round\<close>
  returns the decimal digits of the integer part of the amount, and gives the same
  string back when it is applied to that string.
\<close>

theorem round_idempotent_for_whole_ticks:
  assumes "getPrecision tick = Some 0" and "is_double m e" and "0 \<le> m"
    and "floor_int m e < 1000000000000000"
  shows "round_tick (Num (Fin m e)) tick = Some (Inr (dec_string (floor_int m e)))
         \<and> round_tick (Str (dec_string (floor_int m e))) tick
             = Some (Inr (dec_string (floor_int m e)))"
proof -
  let ?F = "floor_int m e"
  have F: "0 \<le> ?F" by (rule floor_int_nonneg [OF assms(3)])
  have b: "\<bar>?F\<bar> < 9007199254740992" using F assms(4) by simp
  from int_double [OF b] obtain m' e' where
    f: "fl_q ?F 1 = Fin m' e'" and d: "is_double m' e'" by blast
  have "scaled_floor (Num (Fin m e)) 0 = Math_floor (js_mul (Fin m e) (Math_pow10 0))"
    by (simp add: scaled_floor_def)
  also have "\<dots> = Math_floor (Fin m e)" by (simp only: js_mul_one [OF assms(2)])
  also have "\<dots> = fl_q ?F 1" by (rule Math_floor_floor_int [OF assms(2)])
  finally have a1: "scaled_floor (Num (Fin m e)) 0 = fl_q ?F 1" .
  have o: "js_mul (fl_q ?F 1) (Math_pow10 0) = fl_q ?F 1"
    unfolding f by (rule js_mul_one [OF d])
  have "scaled_floor (Str (dec_string ?F)) 0
          = Math_floor (js_mul (StringToNumber (dec_string ?F)) (Math_pow10 0))"
    by (simp add: scaled_floor_def)
  also have "\<dots> = Math_floor (fl_q ?F 1)"
    by (simp only: StringToNumber_dec_string [OF F] o)
  also have "\<dots> = fl_q ?F 1" by (rule Math_floor_int [OF b])
  finally have a2: "scaled_floor (Str (dec_string ?F)) 0 = fl_q ?F 1" .
  from round_tick_integer [OF assms(1) F assms(4) a1]
       round_tick_integer [OF assms(1) F assms(4) a2]
  show ?thesis by blast
qed

lemma ex_tick_one: "getPrecision (fl_q 1 1) = Some 0"
  by code_simp

lemma ex_12_7: "StringToNumber ''12.7'' = Fin 7149464408450662 (- 49)"
  by code_simp

lemma ex_12_7_double: "is_double 7149464408450662 (- 49)"
  by code_simp

lemma ex_12_7_floor: "floor_int 7149464408450662 (- 49) = 12"
  by code_simp

lemma ex_dec_12: "dec_string 12 = ''12''"
  by code_simp

theorem round_idempotent_for_whole_ticks_witness:
  "getPrecision (fl_q 1 1) = Some 0 \<and> is_double 7149464408450662 (- 49)
   \<and> (0::int) \<le> 7149464408450662
   \<and> floor_int 7149464408450662 (- 49) < 1000000000000000
   \<and> round_tick (Num (StringToNumber ''12.7'')) (fl_q 1 1) = Some (Inr ''12'')
   \<and> round_tick (Str ''12'') (fl_q 1 1) = Some (Inr ''12'')"
proof -
  have z: "(0::int) \<le> 7149464408450662" by simp
  have l: "floor_int 7149464408450662 (- 49) < 1000000000000000"
    unfolding ex_12_7_floor by simp
  from round_idempotent_for_whole_ticks [OF ex_tick_one ex_12_7_double z l]
  have "round_tick (Num (StringToNumber ''12.7'')) (fl_q 1 1) = Some (Inr ''12'')
        \<and> round_tick (Str ''12'') (fl_q 1 1) = Some (Inr ''12'')"
    unfolding ex_12_7 ex_12_7_floor ex_dec_12 .
  with ex_tick_one ex_12_7_double z l show ?thesis by blast
qed

section \<open>Properties of the order of rounded numbers\<close>












section \<open>Properties of the scaled amount\<close>




















end
